theory Spec2Isabelle
  imports Main "HOL-Library.Multiset"
begin

section \<open>The MTProto instance core (mtproto/mtp_instance.cpp)\<close>

text \<open>
  A shallow embedding of \<^verbatim>\<open>MTP::Instance::Private\<close>. Member functions become
  functions on a record of the members; calls into collaborators (sessions, timers,
  persistence, event streams) are appended to a log of events; \<^verbatim>\<open>Assert\<close> and
  \<^verbatim>\<open>Expects\<close> failures are values of type \<open>failure\<close>.
\<close>

subsection \<open>Declarations that live in headers outside this file\<close>

text \<open>
  \<^verbatim>\<open>BareDcId\<close>, \<^verbatim>\<open>ShiftDcId\<close>, \<^verbatim>\<open>GetDcIdShift\<close>, \<^verbatim>\<open>destroyKeyNextDcId\<close>,
  \<^verbatim>\<open>isTemporaryDcId\<close>, \<^verbatim>\<open>getRealIdFromTemporaryDcId\<close>, the \<^verbatim>\<open>Config::k...MainDc\<close>
  constants and \<^verbatim>\<open>DcOptions::dcType\<close> are used by mtp_instance.cpp and declared
  elsewhere. They are parameters of the model: every function below takes them in a
  record.
\<close>

datatype Query = AuthLogOut | DestroyAuthKey | AuthExportAuthorization int | HelpGetCdnConfig

record Env =
  BareDcId :: "int \<Rightarrow> int"
  ShiftDcId :: "int \<Rightarrow> int \<Rightarrow> int"
  GetDcIdShift :: "int \<Rightarrow> int"
  destroyKeyNextDcId :: "int \<Rightarrow> int"
  isTemporaryDcId :: "int \<Rightarrow> bool"
  getRealIdFromTemporaryDcId :: "int \<Rightarrow> int"
  kNoneMainDc :: int
  kNotSetMainDc :: int
  kDefaultMainDc :: int
  dcTypeIsCdn :: "int \<Rightarrow> bool"
  serialize :: "Query \<Rightarrow> int list"
  sendNeedsLayer :: bool

text \<open>
  \<open>dcTypeIsCdn E d\<close> stands for \<^verbatim>\<open>dcOptions()->dcType(d) == DcType::Cdn\<close>,
  \<open>serialize E q\<close> for the serialized form of a query this file sends itself, and
  \<open>sendNeedsLayer E\<close> for the \<^verbatim>\<open>needsLayer\<close> flag \<^verbatim>\<open>Instance::send\<close> passes on for
  such a query.
\<close>

subsection \<open>Data\<close>

datatype failure = AssertFailed | ExpectsFailed | SignedOverflow | Diverges | ReadPastEnd

datatype Mode = Normal | KeysDestroyer

text \<open>An \<^verbatim>\<open>AuthKeyPtr\<close> is a shared pointer: \<open>None\<close> is the null pointer and
  \<open>keyRef\<close> is the identity of the object pointed to.\<close>

datatype AuthKey = AuthKey (keyRef: nat) (key_dcId: int)

type_synonym AuthKeyPtr = "AuthKey option"

record Dcenter =
  dcenterId :: int
  dcenterKey :: AuthKeyPtr

text \<open>A \<^verbatim>\<open>Session*\<close>: \<open>sessionRef\<close> is the identity of the object, the shifted
  DC id it was constructed with never changes.\<close>

record Session =
  sessionRef :: nat
  getDcWithShift :: int

record RPCError =
  errCode :: int
  errType :: string

datatype Callback =
    UserCallback nat
  | ExportDone | ExportFail
  | LogOutDone int | LogOutFail int
  | DestroyDone int | DestroyFail int
  | CdnConfigDone

record RPCResponseHandler =
  onDone :: "Callback option"
  onFail :: "Callback option"

text \<open>A \<^verbatim>\<open>SerializedRequest\<close>: the buffer is a vector of \<^verbatim>\<open>mtpPrime\<close>, the 32-bit
  integers \<^verbatim>\<open>execCallback\<close> and \<^verbatim>\<open>globalCallback\<close> are handed ranges of, each element
  given by its value; \<open>rq_after\<close> holds the request id of the request object pointed
  to (\<open>None\<close> for the null pointer).\<close>

record SerializedRequest =
  rq_buffer :: "int list"
  rq_requestId :: int
  rq_after :: "int option"
  rq_lastSentTime :: int
  rq_needsLayer :: bool

datatype Event =
    SessionStart nat
  | SessionKill nat
  | SessionSendPrepared nat SerializedRequest int
  | SessionCancel nat int int
  | DcTemporaryKeyChangedFired int
  | AllKeysDestroyedFired
  | WriteMtpData
  | GlobalFailCalled int RPCError
  | ConfigLoaderLoad
  | TimerSetCallback
  | TimerCallOnce int
  | InvokeQueuedClearSessionsToDestroy
  | LangResetToDefault

record Config =
  cfgDeviceModel :: string
  cfgSystemVersion :: string
  cfgKeys :: "AuthKey list"
  cfgMainDcId :: int

text \<open>
  The members of \<^verbatim>\<open>Instance::Private\<close> (\<open>m_x\<close> is \<^verbatim>\<open>_x\<close>), the global
  \<^verbatim>\<open>GlobalAtomicRequestId\<close>, the answer of \<^verbatim>\<open>Main::Session::Exists()\<close>, the clock
  (\<open>clock s n\<close> is what the \<open>n\<close>-th call of \<^verbatim>\<open>crl::now()\<close> returns) and the log of
  calls made to collaborators. A \<^verbatim>\<open>base::flat_map\<close> is an association list kept in key
  order, a \<^verbatim>\<open>std::map\<close> a partial function.
\<close>

record Private =
  m_mode :: Mode
  m_deviceModel :: string
  m_systemVersion :: string
  m_mainDcId :: int
  m_mainDcIdForced :: bool
  m_dcenters :: "(int \<times> Dcenter) list"
  m_dcentersToDestroy :: "Dcenter list"
  m_mainSession :: "Session option"
  m_sessions :: "(int \<times> Session) list"
  m_sessionsToDestroy :: "Session list"
  m_configLoader :: "string option"
  m_userPhone :: string
  m_cdnConfigLoadRequestId :: int
  m_keysForWrite :: "(int \<times> AuthKeyPtr) list"
  m_requestsByDc :: "int \<rightharpoonup> int"
  m_authExportRequests :: "int \<rightharpoonup> int"
  m_parserMap :: "int \<rightharpoonup> RPCResponseHandler"
  m_requestMap :: "int \<rightharpoonup> SerializedRequest"
  m_delayedRequests :: "(int \<times> int) list"
  m_requestsDelays :: "int \<rightharpoonup> int"
  m_badGuestDcRequests :: "int set"
  m_authWaiters :: "int \<rightharpoonup> int list"
  m_globalHandlerOnFail :: bool
  GlobalAtomicRequestId :: int
  sessionExists :: bool
  nextSessionRef :: nat
  clock :: "nat \<Rightarrow> int"
  clockReads :: nat
  events :: "Event list"

subsection \<open>flat_map operations\<close>

fun fm_insert :: "int \<Rightarrow> 'a \<Rightarrow> (int \<times> 'a) list \<Rightarrow> (int \<times> 'a) list" where
  "fm_insert k v [] = [(k, v)]"
| "fm_insert k v ((k', v') # m) =
     (if k < k' then (k, v) # (k', v') # m
      else if k = k' then (k', v') # m
      else (k', v') # fm_insert k v m)"

text \<open>\<^verbatim>\<open>emplace\<close> keeps an entry that is already there; \<^verbatim>\<open>m[k] = v\<close> overwrites it.\<close>

definition fm_emplace :: "int \<Rightarrow> 'a \<Rightarrow> (int \<times> 'a) list \<Rightarrow> (int \<times> 'a) list" where
  "fm_emplace k v m = fm_insert k v m"

definition fm_erase :: "int \<Rightarrow> (int \<times> 'a) list \<Rightarrow> (int \<times> 'a) list" where
  "fm_erase k m = filter (\<lambda>e. fst e \<noteq> k) m"

definition fm_assign :: "int \<Rightarrow> 'a \<Rightarrow> (int \<times> 'a) list \<Rightarrow> (int \<times> 'a) list" where
  "fm_assign k v m = fm_insert k v (fm_erase k m)"

definition emplaceMap :: "int \<Rightarrow> 'a \<Rightarrow> (int \<rightharpoonup> 'a) \<Rightarrow> (int \<rightharpoonup> 'a)" where
  "emplaceMap k v m = (case m k of None \<Rightarrow> m(k \<mapsto> v) | Some _ \<Rightarrow> m)"

subsection \<open>The request id allocator\<close>

definition kIntMax :: int where
  "kIntMax = 2147483647"

text \<open>Increment of a \<^verbatim>\<open>std::atomic<int>\<close>: two's complement, it wraps.\<close>

definition wrapInt32 :: "int \<Rightarrow> int" where
  "wrapInt32 x = (x + 2147483648) mod 4294967296 - 2147483648"

definition GetNextRequestId :: "int \<Rightarrow> int \<times> int" where
  "GetNextRequestId counter =
     (let result = wrapInt32 (counter + 1)
      in (result, if result = kIntMax div 2 then 0 else result))"

text \<open>A run of \<open>n\<close> allocations: the ids returned, in order, and the counter left.\<close>

fun allocations :: "nat \<Rightarrow> int \<Rightarrow> int list \<times> int" where
  "allocations 0 counter = ([], counter)"
| "allocations (Suc n) counter =
     (case GetNextRequestId counter of (r, c1) \<Rightarrow>
        (case allocations n c1 of (rs, c2) \<Rightarrow> (r # rs, c2)))"

subsection \<open>The routing map\<close>

definition queryRequestByDc :: "Private \<Rightarrow> int \<Rightarrow> int option" where
  "queryRequestByDc s requestId = m_requestsByDc s requestId"

definition changeRequestByDc :: "Env \<Rightarrow> Private \<Rightarrow> int \<Rightarrow> int \<Rightarrow> int option \<times> Private" where
  "changeRequestByDc E s requestId newdc =
     (case m_requestsByDc s requestId of
        Some stored \<Rightarrow>
          (let new = (if stored < 0 then - newdc
                      else ShiftDcId E newdc (GetDcIdShift E stored))
           in (Some new, s\<lparr>m_requestsByDc := (m_requestsByDc s)(requestId \<mapsto> new)\<rparr>))
      | None \<Rightarrow> (None, s))"

definition registerRequest :: "Private \<Rightarrow> int \<Rightarrow> int \<Rightarrow> Private" where
  "registerRequest s requestId shiftedDcId =
     s\<lparr>m_requestsByDc := (m_requestsByDc s)(requestId \<mapsto> shiftedDcId)\<rparr>"

definition unregisterRequest :: "Private \<Rightarrow> int \<Rightarrow> Private" where
  "unregisterRequest s requestId =
     s\<lparr>m_requestsDelays := (m_requestsDelays s)(requestId := None),
       m_requestMap := (m_requestMap s)(requestId := None),
       m_requestsByDc := (m_requestsByDc s)(requestId := None)\<rparr>"

subsection \<open>The key registry\<close>

definition fire :: "Event \<Rightarrow> Private \<Rightarrow> Private" where
  "fire e s = s\<lparr>events := events s @ [e]\<rparr>"

definition dcTemporaryKeyChanged :: "Private \<Rightarrow> int \<Rightarrow> Private" where
  "dcTemporaryKeyChanged s d = fire (DcTemporaryKeyChangedFired d) s"

definition dcPersistentKeyChanged :: "Env \<Rightarrow> Private \<Rightarrow> int \<Rightarrow> AuthKeyPtr \<Rightarrow> Private" where
  "dcPersistentKeyChanged E s d persistentKey =
     (let s1 = dcTemporaryKeyChanged s d in
      if isTemporaryDcId E d then s1
      else
        (let i = map_of (m_keysForWrite s1) d in
         if i \<noteq> None \<and> the i = persistentKey then s1
         else if i = None \<and> persistentKey = None then s1
         else
           (let s2 =
              (if persistentKey = None
                 then s1\<lparr>m_keysForWrite := fm_erase d (m_keysForWrite s1)\<rparr>
               else if i \<noteq> None
                 then s1\<lparr>m_keysForWrite := fm_assign d persistentKey (m_keysForWrite s1)\<rparr>
               else s1\<lparr>m_keysForWrite := fm_emplace d persistentKey (m_keysForWrite s1)\<rparr>)
            in fire WriteMtpData s2)))"

subsection \<open>The DC registry\<close>

definition isKeysDestroyer :: "Private \<Rightarrow> bool" where
  "isKeysDestroyer s = (m_mode s = KeysDestroyer)"

definition crl_now :: "Private \<Rightarrow> int \<times> Private" where
  "crl_now s = (clock s (clockReads s), s\<lparr>clockReads := Suc (clockReads s)\<rparr>)"

definition findDc :: "Private \<Rightarrow> int \<Rightarrow> Dcenter option" where
  "findDc s shiftedDcId = map_of (m_dcenters s) shiftedDcId"

definition addDc :: "Env \<Rightarrow> Private \<Rightarrow> int \<Rightarrow> AuthKeyPtr \<Rightarrow> Dcenter \<times> Private" where
  "addDc E s shiftedDcId key =
     (let d = BareDcId E shiftedDcId in
      case map_of (m_dcenters s) shiftedDcId of
        Some existing \<Rightarrow> (existing, s)
      | None \<Rightarrow>
          (let dc = \<lparr>dcenterId = d, dcenterKey = key\<rparr>
           in (dc, s\<lparr>m_dcenters := fm_emplace shiftedDcId dc (m_dcenters s)\<rparr>)))"

definition removeDc :: "Private \<Rightarrow> int \<Rightarrow> Private" where
  "removeDc s shiftedDcId =
     (case map_of (m_dcenters s) shiftedDcId of
        Some dc \<Rightarrow>
          s\<lparr>m_dcentersToDestroy := m_dcentersToDestroy s @ [dc],
            m_dcenters := fm_erase shiftedDcId (m_dcenters s)\<rparr>
      | None \<Rightarrow> s)"

definition getDcById :: "Env \<Rightarrow> Private \<Rightarrow> int \<Rightarrow> Dcenter \<times> Private" where
  "getDcById E s shiftedDcId =
     (case findDc s shiftedDcId of
        Some result \<Rightarrow> (result, s)
      | None \<Rightarrow>
          (let result = BareDcId E shiftedDcId;
               d = (if isTemporaryDcId E result
                    then (let realDcId = getRealIdFromTemporaryDcId E result
                          in if realDcId \<noteq> 0 then realDcId else result)
                    else result)
           in if d \<noteq> shiftedDcId
              then (case findDc s d of
                      Some result' \<Rightarrow> (result', s)
                    | None \<Rightarrow> addDc E s d None)
              else addDc E s d None))"

subsection \<open>Storing and sending a request\<close>

definition storeRequest ::
  "Private \<Rightarrow> int \<Rightarrow> SerializedRequest \<Rightarrow> RPCResponseHandler \<Rightarrow> Private" where
  "storeRequest s requestId request callbacks =
     (let s1 = (if onDone callbacks \<noteq> None \<or> onFail callbacks \<noteq> None
                then s\<lparr>m_parserMap := emplaceMap requestId callbacks (m_parserMap s)\<rparr>
                else s)
      in s1\<lparr>m_requestMap := emplaceMap requestId request (m_requestMap s1)\<rparr>)"

definition getRequest :: "Private \<Rightarrow> int \<Rightarrow> SerializedRequest option" where
  "getRequest s requestId = m_requestMap s requestId"

text \<open>
  The body of \<^verbatim>\<open>sendRequest\<close> once \<^verbatim>\<open>getSession(shiftedDcId)\<close> has returned \<open>session\<close>.
  A \<^verbatim>\<open>SerializedRequest\<close> is a shared pointer: when \<^verbatim>\<open>storeRequest\<close> has put it into
  \<^verbatim>\<open>_requestMap\<close>, the fields written afterwards are written to the stored object too;
  when the key was taken, the object stored under it is another one and stays as it is.
\<close>

definition sendRequestTo ::
  "Private \<Rightarrow> Session \<Rightarrow> int \<Rightarrow> SerializedRequest \<Rightarrow> RPCResponseHandler \<Rightarrow> int \<Rightarrow> int
     \<Rightarrow> bool \<Rightarrow> int \<Rightarrow> Private" where
  "sendRequestTo s session requestId request callbacks shiftedDcId msCanWait needsLayer'
      afterRequestId =
     (let stored = (m_requestMap s requestId = None);
          request1 = request\<lparr>rq_requestId := requestId\<rparr>;
          s1 = storeRequest s requestId request1 callbacks;
          toMainDc = (shiftedDcId = 0);
          realShiftedDcId = getDcWithShift session;
          signedDcId = (if toMainDc then - realShiftedDcId else realShiftedDcId);
          s2 = registerRequest s1 requestId signedDcId;
          request2 = (if afterRequestId \<noteq> 0
                      then request1\<lparr>rq_after :=
                             map_option rq_requestId (getRequest s2 afterRequestId)\<rparr>
                      else request1)
      in case crl_now s2 of (now, s3) \<Rightarrow>
        (let request3 = request2\<lparr>rq_lastSentTime := now, rq_needsLayer := needsLayer'\<rparr>;
             s4 = (if stored
                   then s3\<lparr>m_requestMap := (m_requestMap s3)(requestId \<mapsto> request3)\<rparr>
                   else s3)
         in fire (SessionSendPrepared (sessionRef session) request3 msCanWait) s4))"

definition newRequest :: "int list \<Rightarrow> SerializedRequest" where
  "newRequest buf =
     \<lparr>rq_buffer = buf, rq_requestId = 0, rq_after = None, rq_lastSentTime = 0,
      rq_needsLayer = False\<rparr>"

subsection \<open>The session registry\<close>

definition findSession :: "Private \<Rightarrow> int \<Rightarrow> Session option" where
  "findSession s shiftedDcId = map_of (m_sessions s) shiftedDcId"

text \<open>
  \<^verbatim>\<open>_instance->send(query, done, fail, shiftedDcId)\<close> as \<^verbatim>\<open>scheduleKeyDestroy\<close> and
  \<^verbatim>\<open>performKeyDestroy\<close> call it from inside \<^verbatim>\<open>startSession(shiftedDcId)\<close>, where
  \<open>result\<close> is the session \<^verbatim>\<open>startSession\<close> has just put under \<open>shiftedDcId\<close>:
  \<^verbatim>\<open>Instance::send\<close> takes the next request id and \<^verbatim>\<open>sendRequest\<close> asks
  \<^verbatim>\<open>getSession(shiftedDcId)\<close>, which is the main session for \<open>0\<close> and otherwise finds
  \<open>result\<close> (\<^verbatim>\<open>startSession\<close> has checked that \<^verbatim>\<open>BareDcId(shiftedDcId)\<close> is not \<open>0\<close>).
\<close>

definition sendFromStartSession ::
  "Env \<Rightarrow> Private \<Rightarrow> Query \<Rightarrow> RPCResponseHandler \<Rightarrow> int \<Rightarrow> Session \<Rightarrow> failure + Private" where
  "sendFromStartSession E s query callbacks shiftedDcId result =
     (case GetNextRequestId (GlobalAtomicRequestId s) of (requestId, counter) \<Rightarrow>
        (let s1 = s\<lparr>GlobalAtomicRequestId := counter\<rparr> in
         case (if shiftedDcId = 0
               then (case m_mainSession s1 of None \<Rightarrow> Inl AssertFailed | Some m \<Rightarrow> Inr m)
               else Inr result) of
           Inl f \<Rightarrow> Inl f
         | Inr session \<Rightarrow>
             Inr (sendRequestTo s1 session requestId (newRequest (serialize E query)) callbacks
                    shiftedDcId 0 (sendNeedsLayer E) 0)))"

definition performKeyDestroy :: "Env \<Rightarrow> Private \<Rightarrow> int \<Rightarrow> Session \<Rightarrow> failure + Private" where
  "performKeyDestroy E s shiftedDcId result =
     (if \<not> isKeysDestroyer s then Inl ExpectsFailed
      else sendFromStartSession E s DestroyAuthKey
             \<lparr>onDone = Some (DestroyDone shiftedDcId), onFail = Some (DestroyFail shiftedDcId)\<rparr>
             shiftedDcId result)"

definition scheduleKeyDestroy :: "Env \<Rightarrow> Private \<Rightarrow> int \<Rightarrow> Session \<Rightarrow> failure + Private" where
  "scheduleKeyDestroy E s shiftedDcId result =
     (if \<not> isKeysDestroyer s then Inl ExpectsFailed
      else if dcTypeIsCdn E shiftedDcId then performKeyDestroy E s shiftedDcId result
      else sendFromStartSession E s AuthLogOut
             \<lparr>onDone = Some (LogOutDone shiftedDcId), onFail = Some (LogOutFail shiftedDcId)\<rparr>
             shiftedDcId result)"

text \<open>\<^verbatim>\<open>_sessions.emplace\<close> returns the session already stored under the key, if any.\<close>

definition startSession :: "Env \<Rightarrow> Private \<Rightarrow> int \<Rightarrow> failure + (Session \<times> Private)" where
  "startSession E s shiftedDcId =
     (if BareDcId E shiftedDcId = 0 then Inl ExpectsFailed
      else
        (case getDcById E s shiftedDcId of (dc, s1) \<Rightarrow>
           (let created = \<lparr>sessionRef = nextSessionRef s1, getDcWithShift = shiftedDcId\<rparr>;
                s2 = s1\<lparr>nextSessionRef := Suc (nextSessionRef s1)\<rparr>;
                s3 = s2\<lparr>m_sessions := fm_emplace shiftedDcId created (m_sessions s2)\<rparr>;
                result = (case findSession s2 shiftedDcId of
                            Some existing \<Rightarrow> existing | None \<Rightarrow> created);
                s4 = fire (SessionStart (sessionRef result)) s3
            in if isKeysDestroyer s4
               then (case scheduleKeyDestroy E s4 shiftedDcId result of
                       Inl f \<Rightarrow> Inl f
                     | Inr s5 \<Rightarrow> Inr (result, s5))
               else Inr (result, s4))))"

definition getSession :: "Env \<Rightarrow> Private \<Rightarrow> int \<Rightarrow> failure + (Session \<times> Private)" where
  "getSession E s shiftedDcId =
     (if shiftedDcId = 0
      then (case m_mainSession s of None \<Rightarrow> Inl AssertFailed | Some m \<Rightarrow> Inr (m, s))
      else
        (case (if BareDcId E shiftedDcId = 0
               then (case m_mainSession s of
                       None \<Rightarrow> Inl AssertFailed
                     | Some m \<Rightarrow> Inr (shiftedDcId + BareDcId E (getDcWithShift m)))
               else Inr shiftedDcId) of
           Inl f \<Rightarrow> Inl f
         | Inr shiftedDcId' \<Rightarrow>
             (case findSession s shiftedDcId' of
                Some session \<Rightarrow> Inr (session, s)
              | None \<Rightarrow> startSession E s shiftedDcId')))"

definition removeSession :: "Private \<Rightarrow> int \<Rightarrow> Session option \<times> Private" where
  "removeSession s shiftedDcId =
     (case map_of (m_sessions s) shiftedDcId of
        None \<Rightarrow> (None, s)
      | Some session \<Rightarrow>
          (let s1 = fire (SessionKill (sessionRef session)) s
           in (Some session,
               s1\<lparr>m_sessionsToDestroy := m_sessionsToDestroy s1 @ [session],
                  m_sessions := fm_erase shiftedDcId (m_sessions s1)\<rparr>)))"

text \<open>The lambda of \<^verbatim>\<open>killSession\<close>; \<^verbatim>\<open>removed == _mainSession\<close> compares pointers.\<close>

definition checkIfMainAndKill :: "Private \<Rightarrow> int \<Rightarrow> bool \<times> Private" where
  "checkIfMainAndKill s shiftedDcId =
     (case removeSession s shiftedDcId of
        (Some removed, s1) \<Rightarrow>
          (map_option sessionRef (m_mainSession s1) = Some (sessionRef removed), s1)
      | (None, s1) \<Rightarrow> (False, s1))"

definition killSession :: "Env \<Rightarrow> Private \<Rightarrow> int \<Rightarrow> failure + Private" where
  "killSession E s shiftedDcId =
     (case checkIfMainAndKill s shiftedDcId of (wasMain, s1) \<Rightarrow>
        (case (if wasMain
               then (case checkIfMainAndKill s1 (m_mainDcId s1) of (_, s2) \<Rightarrow>
                       (case startSession E s2 (m_mainDcId s2) of
                          Inl f \<Rightarrow> Inl f
                        | Inr (session, s3) \<Rightarrow> Inr (s3\<lparr>m_mainSession := Some session\<rparr>)))
               else Inr s1) of
           Inl f \<Rightarrow> Inl f
         | Inr s4 \<Rightarrow> Inr (fire InvokeQueuedClearSessionsToDestroy s4)))"

definition setMainDcId :: "Env \<Rightarrow> Private \<Rightarrow> int \<Rightarrow> failure + Private" where
  "setMainDcId E s mainDcId' =
     (case m_mainSession s of
        None \<Rightarrow> Inr s
      | Some m \<Rightarrow>
          (let s1 = s\<lparr>m_mainDcIdForced := True\<rparr>;
               oldMainDcId = getDcWithShift m;
               s2 = s1\<lparr>m_mainDcId := mainDcId'\<rparr>
           in case (if oldMainDcId \<noteq> m_mainDcId s2 then killSession E s2 oldMainDcId
                    else Inr s2) of
                Inl f \<Rightarrow> Inl f
              | Inr s3 \<Rightarrow> Inr (fire WriteMtpData s3)))"

definition mainDcId :: "Env \<Rightarrow> Private \<Rightarrow> failure + int" where
  "mainDcId E s =
     (if m_mainDcId s = kNoneMainDc E then Inl ExpectsFailed else Inr (m_mainDcId s))"

definition sendRequest ::
  "Env \<Rightarrow> Private \<Rightarrow> int \<Rightarrow> SerializedRequest \<Rightarrow> RPCResponseHandler \<Rightarrow> int \<Rightarrow> int
     \<Rightarrow> bool \<Rightarrow> int \<Rightarrow> failure + Private" where
  "sendRequest E s requestId request callbacks shiftedDcId msCanWait needsLayer'
      afterRequestId =
     (case getSession E s shiftedDcId of
        Inl f \<Rightarrow> Inl f
      | Inr (session, s1) \<Rightarrow>
          Inr (sendRequestTo s1 session requestId request callbacks shiftedDcId msCanWait
                 needsLayer' afterRequestId))"

text \<open>
  Modelled from the spec: \<^verbatim>\<open>Instance::send\<close>, a template of mtp_instance.h. It allocates
  an id, hands the serialized request to \<^verbatim>\<open>sendRequest\<close> and returns the id.
\<close>

definition send ::
  "Env \<Rightarrow> Private \<Rightarrow> int list \<Rightarrow> RPCResponseHandler \<Rightarrow> int \<Rightarrow> int \<Rightarrow> bool \<Rightarrow> int
     \<Rightarrow> failure + (int \<times> Private)" where
  "send E s payload callbacks shiftedDcId msCanWait needsLayer' afterRequestId =
     (case GetNextRequestId (GlobalAtomicRequestId s) of (requestId, counter) \<Rightarrow>
        (case sendRequest E (s\<lparr>GlobalAtomicRequestId := counter\<rparr>) requestId
                (newRequest payload) callbacks shiftedDcId msCanWait needsLayer'
                afterRequestId of
           Inl f \<Rightarrow> Inl f
         | Inr s1 \<Rightarrow> Inr (requestId, s1)))"

text \<open>\<^verbatim>\<open>clearCallbacks(requestId)\<close> with the default \<^verbatim>\<open>errorCode = RPCError::NoError\<close>,
  which "means do not toggle onError callback": the handlers are dropped, not called.\<close>

definition clearCallbacks :: "Private \<Rightarrow> int \<Rightarrow> Private" where
  "clearCallbacks s requestId = s\<lparr>m_parserMap := (m_parserMap s)(requestId := None)\<rparr>"

text \<open>
  \<^verbatim>\<open>*(mtpMsgId*)(buffer.constData() + 4)\<close>: \<^verbatim>\<open>constData()\<close> points to \<^verbatim>\<open>mtpPrime\<close>, so
  \<^verbatim>\<open>+ 4\<close> is the address of element 4, and the \<^verbatim>\<open>mtpMsgId\<close> read there, an unsigned
  64-bit integer, is made of the elements 4 and 5, the low half first (the byte
  order of the processors the client is built for). \<open>None\<close> when the buffer has fewer
  than six elements: the read goes past its end.
\<close>

definition msgIdAt4 :: "int list \<Rightarrow> int option" where
  "msgIdAt4 buf =
     (case drop 4 buf of
        a # b # _ \<Rightarrow> Some (a mod 4294967296 + 4294967296 * (b mod 4294967296))
      | _ \<Rightarrow> None)"

definition cancel :: "Env \<Rightarrow> Private \<Rightarrow> int \<Rightarrow> failure + Private" where
  "cancel E s requestId =
     (if requestId = 0 then Inr s
      else
        (let shiftedDcId = queryRequestByDc s requestId in
         case (case m_requestMap s requestId of
                 Some request \<Rightarrow>
                   (case msgIdAt4 (rq_buffer request) of
                      None \<Rightarrow> Inl ReadPastEnd
                    | Some msgId \<Rightarrow>
                        Inr (msgId, s\<lparr>m_requestMap := (m_requestMap s)(requestId := None)\<rparr>))
               | None \<Rightarrow> Inr (0, s)) of
           Inl f \<Rightarrow> Inl f
         | Inr (msgId, s1) \<Rightarrow>
             (let s2 = unregisterRequest s1 requestId in
              case (case shiftedDcId of
                      Some d \<Rightarrow>
                        (case getSession E s2 \<bar>d\<bar> of
                           Inl f \<Rightarrow> Inl f
                         | Inr (session, s3) \<Rightarrow>
                             Inr (fire (SessionCancel (sessionRef session) requestId msgId) s3))
                    | None \<Rightarrow> Inr s2) of
                Inl f \<Rightarrow> Inl f
              | Inr s4 \<Rightarrow> Inr (clearCallbacks s4 requestId))))"

subsection \<open>The config controller\<close>

definition requestConfig :: "Private \<Rightarrow> Private" where
  "requestConfig s =
     (if m_configLoader s \<noteq> None \<or> isKeysDestroyer s then s
      else fire ConfigLoaderLoad (s\<lparr>m_configLoader := Some (m_userPhone s)\<rparr>))"

text \<open>\<^verbatim>\<open>request(MTPhelp_GetCdnConfig()).done(...).send()\<close> sends to the main DC.\<close>

definition requestCDNConfig :: "Env \<Rightarrow> Private \<Rightarrow> failure + Private" where
  "requestCDNConfig E s =
     (if m_cdnConfigLoadRequestId s \<noteq> 0 \<or> m_mainDcId s = kNoneMainDc E then Inr s
      else
        (case send E s (serialize E HelpGetCdnConfig)
                \<lparr>onDone = Some CdnConfigDone, onFail = None\<rparr> 0 0 (sendNeedsLayer E) 0 of
           Inl f \<Rightarrow> Inl f
         | Inr (requestId, s1) \<Rightarrow> Inr (s1\<lparr>m_cdnConfigLoadRequestId := requestId\<rparr>)))"

subsection \<open>What sending leaves alone\<close>

text \<open>The members that neither \<^verbatim>\<open>getSession\<close> nor \<^verbatim>\<open>sendRequest\<close> writes.\<close>

definition sendFrame :: "Private \<Rightarrow> Private \<Rightarrow> bool" where
  "sendFrame s s' \<longleftrightarrow>
     m_mode s' = m_mode s \<and> m_deviceModel s' = m_deviceModel s \<and>
     m_systemVersion s' = m_systemVersion s \<and> m_mainDcId s' = m_mainDcId s \<and>
     m_mainDcIdForced s' = m_mainDcIdForced s \<and>
     m_dcentersToDestroy s' = m_dcentersToDestroy s \<and> m_mainSession s' = m_mainSession s \<and>
     m_sessionsToDestroy s' = m_sessionsToDestroy s \<and> m_configLoader s' = m_configLoader s \<and>
     m_userPhone s' = m_userPhone s \<and>
     m_cdnConfigLoadRequestId s' = m_cdnConfigLoadRequestId s \<and>
     m_keysForWrite s' = m_keysForWrite s \<and> m_authExportRequests s' = m_authExportRequests s \<and>
     m_delayedRequests s' = m_delayedRequests s \<and> m_requestsDelays s' = m_requestsDelays s \<and>
     m_badGuestDcRequests s' = m_badGuestDcRequests s \<and> m_authWaiters s' = m_authWaiters s \<and>
     m_globalHandlerOnFail s' = m_globalHandlerOnFail s \<and> sessionExists s' = sessionExists s \<and>
     clock s' = clock s"

lemma sendFrame_refl: "sendFrame s s"
  by (simp add: sendFrame_def)

lemma sendFrame_trans: "sendFrame s s' \<Longrightarrow> sendFrame s' s'' \<Longrightarrow> sendFrame s s''"
  by (simp add: sendFrame_def)

lemma sendRequestTo_frame:
  "sendFrame s (sendRequestTo s session requestId request callbacks shiftedDcId msCanWait nl
     afterRequestId)"
  by (simp add: sendFrame_def sendRequestTo_def storeRequest_def registerRequest_def
      crl_now_def fire_def Let_def)

lemma sendFromStartSession_frame:
  "sendFromStartSession E s q cb k r = Inr s' \<Longrightarrow> sendFrame s s'"
  using sendRequestTo_frame
  by (auto simp: sendFromStartSession_def Let_def sendFrame_def
      split: prod.splits if_splits option.splits)

lemma scheduleKeyDestroy_frame:
  "scheduleKeyDestroy E s k r = Inr s' \<Longrightarrow> sendFrame s s'"
  by (auto simp: scheduleKeyDestroy_def performKeyDestroy_def split: if_splits
      dest: sendFromStartSession_frame)

lemma getDcById_frame: "getDcById E s k = (dc, s') \<Longrightarrow> sendFrame s s'"
  by (auto simp: getDcById_def addDc_def findDc_def Let_def sendFrame_def
      split: option.splits if_splits)

lemma startSession_frame: "startSession E s k = Inr (x, s') \<Longrightarrow> sendFrame s s'"
  unfolding startSession_def
  apply (auto simp: Let_def split: if_splits prod.splits sum.splits)
   apply (drule getDcById_frame, drule scheduleKeyDestroy_frame)
   apply (simp add: sendFrame_def fire_def)
  apply (drule getDcById_frame)
  apply (simp add: sendFrame_def fire_def)
  done

lemma getSession_frame: "getSession E s k = Inr (x, s') \<Longrightarrow> sendFrame s s'"
  by (auto simp: getSession_def sendFrame_refl split: if_splits option.splits sum.splits
      dest: startSession_frame)

subsection \<open>The delayed scheduler\<close>

text \<open>
  The loop of \<^verbatim>\<open>checkDelayedRequests\<close>, with \<open>now\<close> read once before it: pop the
  front entry while it is due and send its request again.
\<close>

function checkDelayedLoop :: "Env \<Rightarrow> int \<Rightarrow> Private \<Rightarrow> failure + Private" where
  "checkDelayedLoop E now s =
     (case m_delayedRequests s of
        [] \<Rightarrow> Inr s
      | front # rest \<Rightarrow>
          if now \<ge> snd front then
            (let requestId = fst front;
                 s1 = s\<lparr>m_delayedRequests := rest\<rparr>
             in case queryRequestByDc s1 requestId of
                  None \<Rightarrow> checkDelayedLoop E now s1
                | Some dcWithShift \<Rightarrow>
                    (case m_requestMap s1 requestId of
                       None \<Rightarrow> checkDelayedLoop E now s1
                     | Some request \<Rightarrow>
                         (case getSession E s1 \<bar>dcWithShift\<bar> of
                            Inl f \<Rightarrow> Inl f
                          | Inr (session, s2) \<Rightarrow>
                              checkDelayedLoop E now
                                (fire (SessionSendPrepared (sessionRef session) request 0) s2))))
          else Inr s)"
  by pat_completeness auto
termination
proof (relation "measure (\<lambda>(E, now, s). length (m_delayedRequests s))")
  show "wf (measure (\<lambda>(E, now, s). length (m_delayedRequests s)))"
    by simp
next
  fix E :: Env and now :: int and s :: Private and front rest requestId s1
  assume "m_delayedRequests s = front # rest" "s1 = s\<lparr>m_delayedRequests := rest\<rparr>"
  then show "((E, now, s1), E, now, s) \<in> measure (\<lambda>(E, now, s). length (m_delayedRequests s))"
    by simp
  then show "((E, now, s1), E, now, s) \<in> measure (\<lambda>(E, now, s). length (m_delayedRequests s))" .
next
  fix E :: Env and now :: int and s :: Private and front rest requestId s1 dcWithShift
    request x session s2
  assume q: "m_delayedRequests s = front # rest" "s1 = s\<lparr>m_delayedRequests := rest\<rparr>"
    and g: "getSession E s1 \<bar>dcWithShift\<bar> = Inr x" "(session, s2) = x"
  from g have "sendFrame s1 s2"
    using getSession_frame [of E s1 "\<bar>dcWithShift\<bar>" session s2] by simp
  with q show "((E, now, fire (SessionSendPrepared (sessionRef session) request 0) s2), E, now, s)
      \<in> measure (\<lambda>(E, now, s). length (m_delayedRequests s))"
    by (simp add: sendFrame_def fire_def)
qed

declare checkDelayedLoop.simps [simp del]

definition checkDelayedRequests :: "Env \<Rightarrow> Private \<Rightarrow> failure + Private" where
  "checkDelayedRequests E s =
     (case crl_now s of (now, s0) \<Rightarrow>
        (case checkDelayedLoop E now s0 of
           Inl f \<Rightarrow> Inl f
         | Inr s1 \<Rightarrow>
             (case m_delayedRequests s1 of
                [] \<Rightarrow> Inr s1
              | front # _ \<Rightarrow> Inr (fire (TimerCallOnce (snd front - now)) s1))))"

text \<open>
  The scan of \<^verbatim>\<open>_delayedRequests\<close> in the flood and server error branch: \<open>None\<close> when
  an entry of the same request is met first (\<^verbatim>\<open>return true\<close>), otherwise the queue with
  the new entry put before the first entry that is due later than \<open>sendAt\<close>.
\<close>

fun enqueueDelayed :: "int \<Rightarrow> int \<Rightarrow> (int \<times> int) list \<Rightarrow> (int \<times> int) list option" where
  "enqueueDelayed requestId sendAt [] = Some [(requestId, sendAt)]"
| "enqueueDelayed requestId sendAt (it # q) =
     (if fst it = requestId then None
      else if snd it > sendAt then Some ((requestId, sendAt) # it # q)
      else map_option ((#) it) (enqueueDelayed requestId sendAt q))"

text \<open>
  The scan in the \<^verbatim>\<open>MSG_WAIT_FAILED\<close> branch: \<open>None\<close> when an entry of the same request
  is met first, otherwise the queue with the request put right before the entry of the
  request it depends on, with that entry's time (unchanged when there is no such entry).
\<close>

fun enqueueBefore :: "int \<Rightarrow> int \<Rightarrow> (int \<times> int) list \<Rightarrow> (int \<times> int) list option" where
  "enqueueBefore requestId afterId [] = Some []"
| "enqueueBefore requestId afterId (i # q) =
     (if fst i = requestId then None
      else if fst i = afterId then Some ((requestId, snd i) # i # q)
      else map_option ((#) i) (enqueueBefore requestId afterId q))"

subsection \<open>The error policy engine\<close>

text \<open>
  \<^verbatim>\<open>QRegularExpression("^PREFIX(\\d+)$").match(err)\<close>: the digits captured, if the
  expression matches. \<^verbatim>\<open>\d\<close> is an ASCII digit and \<^verbatim>\<open>$\<close> also matches before a
  line feed that ends the string. \<^verbatim>\<open>QString::toInt\<close> returns 0 when the number
  does not fit an \<^verbatim>\<open>int\<close>.
\<close>

definition isDigit :: "char \<Rightarrow> bool" where
  "isDigit c = (c \<in> set ''0123456789'')"

definition digitValue :: "char \<Rightarrow> int" where
  "digitValue c = int (of_char c) - 48"

definition toInt :: "string \<Rightarrow> int" where
  "toInt digits =
     (let v = foldl (\<lambda>a c. 10 * a + digitValue c) 0 digits
      in if v \<le> kIntMax then v else 0)"

definition capturedDigits :: "string \<Rightarrow> string \<Rightarrow> string option" where
  "capturedDigits prefix err =
     (if take (length prefix) err = prefix
      then (let rest = drop (length prefix) err;
                digits = (if rest \<noteq> [] \<and> last rest = CHR 0x0A then butlast rest else rest)
            in if digits \<noteq> [] \<and> list_all isDigit digits then Some digits else None)
      else None)"

definition migrateMatch :: "string \<Rightarrow> string option" where
  "migrateMatch err =
     (case capturedDigits ''FILE_MIGRATE_'' err of
        Some d \<Rightarrow> Some d
      | None \<Rightarrow>
     (case capturedDigits ''PHONE_MIGRATE_'' err of
        Some d \<Rightarrow> Some d
      | None \<Rightarrow>
     (case capturedDigits ''NETWORK_MIGRATE_'' err of
        Some d \<Rightarrow> Some d
      | None \<Rightarrow> capturedDigits ''USER_MIGRATE_'' err)))"

definition floodMatch :: "string \<Rightarrow> string option" where
  "floodMatch err = capturedDigits ''FLOOD_WAIT_'' err"

text \<open>The branch of \<^verbatim>\<open>onErrorDefault\<close> for \<^verbatim>\<open>..._MIGRATE_N\<close>; \<open>digits\<close> is \<^verbatim>\<open>m.captured(2)\<close>.\<close>

definition onErrorDefault_migrate ::
  "Env \<Rightarrow> Private \<Rightarrow> int \<Rightarrow> string \<Rightarrow> failure + (bool \<times> Private)" where
  "onErrorDefault_migrate E s requestId digits =
     (if requestId = 0 then Inr (False, s)
      else
        (let newdc = toInt digits;
             dcWithShift = (case queryRequestByDc s requestId of Some d \<Rightarrow> d | None \<Rightarrow> 0)
         in if dcWithShift = 0 \<or> newdc = 0 then Inr (False, s)
            else
              (case (if dcWithShift < 0
                     then (case setMainDcId E s newdc of
                             Inl f \<Rightarrow> Inl f
                           | Inr s1 \<Rightarrow> Inr (newdc, s1))
                     else Inr (ShiftDcId E newdc (GetDcIdShift E dcWithShift), s)) of
                 Inl f \<Rightarrow> Inl f
               | Inr (newdcWithShift, s1) \<Rightarrow>
                   (case m_requestMap s1 requestId of
                      None \<Rightarrow> Inr (False, s1)
                    | Some request \<Rightarrow>
                        (case getSession E s1 newdcWithShift of
                           Inl f \<Rightarrow> Inl f
                         | Inr (session, s2) \<Rightarrow>
                             (let s3 = registerRequest s2 requestId
                                         (if dcWithShift < 0 then - newdcWithShift
                                          else newdcWithShift)
                              in Inr (True,
                                   fire (SessionSendPrepared (sessionRef session) request 0)
                                     s3)))))))"

text \<open>
  The branch for \<^verbatim>\<open>code < 0 || code >= 500\<close> or \<^verbatim>\<open>FLOOD_WAIT_S\<close>; \<open>flood\<close> is the match
  of the flood expression, evaluated only when the code is neither. \<^verbatim>\<open>secs * 1000\<close> is
  a multiplication of \<^verbatim>\<open>int\<close>.
\<close>

definition onErrorDefault_delay ::
  "Env \<Rightarrow> Private \<Rightarrow> int \<Rightarrow> int \<Rightarrow> string option \<Rightarrow> failure + (bool \<times> Private)" where
  "onErrorDefault_delay E s requestId code flood =
     (if requestId = 0 then Inr (False, s)
      else
        (case (if code < 0 \<or> code \<ge> 500
               then (case m_requestsDelays s requestId of
                       Some d \<Rightarrow>
                         (if d > 60 then (d, s)
                          else (d * 2, s\<lparr>m_requestsDelays :=
                                           (m_requestsDelays s)(requestId \<mapsto> d * 2)\<rparr>))
                     | None \<Rightarrow>
                         (1, s\<lparr>m_requestsDelays := (m_requestsDelays s)(requestId \<mapsto> 1)\<rparr>))
               else (case flood of Some digits \<Rightarrow> (toInt digits, s) | None \<Rightarrow> (1, s))) of
           (secs, s1) \<Rightarrow>
             (if secs * 1000 > kIntMax \<or> secs * 1000 < - kIntMax - 1 then Inl SignedOverflow
              else
                (case crl_now s1 of (now, s2) \<Rightarrow>
                   (let sendAt = now + secs * 1000 + 10 in
                    case enqueueDelayed requestId sendAt (m_delayedRequests s2) of
                      None \<Rightarrow> Inr (True, s2)
                    | Some q \<Rightarrow>
                        (case checkDelayedRequests E (s2\<lparr>m_delayedRequests := q\<rparr>) of
                           Inl f \<Rightarrow> Inl f
                         | Inr s3 \<Rightarrow> Inr (True, s3)))))))"

text \<open>The branch for 401 and for \<^verbatim>\<open>FILE_ID_INVALID\<close>; \<^verbatim>\<open>_authWaiters[newdc]\<close> makes an
  empty entry when there is none.\<close>

definition onErrorDefault_unauthorized ::
  "Env \<Rightarrow> Private \<Rightarrow> int \<Rightarrow> RPCError \<Rightarrow> bool \<Rightarrow> failure + (bool \<times> Private)" where
  "onErrorDefault_unauthorized E s requestId error badGuestDc =
     (let dcWithShift = (case queryRequestByDc s requestId of Some d \<Rightarrow> d | None \<Rightarrow> 0);
          newdc = BareDcId E \<bar>dcWithShift\<bar>;
          notHandled = Inr (False,
                         if \<not> badGuestDc \<and> m_globalHandlerOnFail s
                         then fire (GlobalFailCalled requestId error) s else s)
      in if newdc = 0 then notHandled
         else
           (case mainDcId E s of
              Inl f \<Rightarrow> Inl f
            | Inr mainDc \<Rightarrow>
                if newdc = mainDc \<or> \<not> sessionExists s then notHandled
                else
                  (let waiters = (case m_authWaiters s newdc of Some w \<Rightarrow> w | None \<Rightarrow> []);
                       s1 = s\<lparr>m_authWaiters := (m_authWaiters s)(newdc \<mapsto> waiters)\<rparr>
                   in case (if waiters = []
                            then (case send E s1 (serialize E (AuthExportAuthorization newdc))
                                         \<lparr>onDone = Some ExportDone, onFail = Some ExportFail\<rparr>
                                         0 0 (sendNeedsLayer E) 0 of
                                    Inl f \<Rightarrow> Inl f
                                  | Inr (exportRequestId, s2) \<Rightarrow>
                                      Inr (s2\<lparr>m_authExportRequests :=
                                            emplaceMap exportRequestId \<bar>dcWithShift\<bar>
                                              (m_authExportRequests s2)\<rparr>))
                            else Inr s1) of
                        Inl f \<Rightarrow> Inl f
                      | Inr s3 \<Rightarrow>
                          (let s4 = s3\<lparr>m_authWaiters :=
                                       (m_authWaiters s3)(newdc \<mapsto> waiters @ [requestId])\<rparr>;
                               s5 = (if badGuestDc
                                     then s4\<lparr>m_badGuestDcRequests :=
                                            insert requestId (m_badGuestDcRequests s4)\<rparr>
                                     else s4)
                           in Inr (True, s5)))))"

text \<open>The branch for \<^verbatim>\<open>CONNECTION_NOT_INITED\<close> and \<^verbatim>\<open>CONNECTION_LAYER_INVALID\<close>.\<close>

definition onErrorDefault_layer ::
  "Env \<Rightarrow> Private \<Rightarrow> int \<Rightarrow> failure + (bool \<times> Private)" where
  "onErrorDefault_layer E s requestId =
     (case m_requestMap s requestId of
        None \<Rightarrow> Inr (False, s)
      | Some request \<Rightarrow>
          (let dcWithShift = (case queryRequestByDc s requestId of Some d \<Rightarrow> d | None \<Rightarrow> 0)
           in if dcWithShift = 0 then Inr (False, s)
              else
                (case getSession E s \<bar>dcWithShift\<bar> of
                   Inl f \<Rightarrow> Inl f
                 | Inr (session, s1) \<Rightarrow>
                     (let request' = request\<lparr>rq_needsLayer := True\<rparr>;
                          s2 = s1\<lparr>m_requestMap := (m_requestMap s1)(requestId \<mapsto> request')\<rparr>
                      in Inr (True,
                           fire (SessionSendPrepared (sessionRef session) request' 0) s2)))))"

text \<open>The branch for \<^verbatim>\<open>MSG_WAIT_FAILED\<close>.\<close>

definition onErrorDefault_waitFailed ::
  "Env \<Rightarrow> Private \<Rightarrow> int \<Rightarrow> failure + (bool \<times> Private)" where
  "onErrorDefault_waitFailed E s requestId =
     (case m_requestMap s requestId of
        None \<Rightarrow> Inr (False, s)
      | Some request \<Rightarrow>
     (case rq_after request of
        None \<Rightarrow> Inr (False, s)
      | Some afterId \<Rightarrow>
          (case (case queryRequestByDc s requestId of
                   Some shiftedDcId \<Rightarrow>
                     (case queryRequestByDc s afterId of
                        Some afterDcId \<Rightarrow>
                          (shiftedDcId,
                           if shiftedDcId \<noteq> afterDcId then request\<lparr>rq_after := None\<rparr>
                           else request)
                      | None \<Rightarrow> (0, request))
                 | None \<Rightarrow> (0, request)) of
             (dcWithShift, request1) \<Rightarrow>
               (let s1 = s\<lparr>m_requestMap := (m_requestMap s)(requestId \<mapsto> request1)\<rparr>
                in if dcWithShift = 0 then Inr (False, s1)
                   else
                     (case rq_after request1 of
                        None \<Rightarrow>
                          (case getSession E s1 \<bar>dcWithShift\<bar> of
                             Inl f \<Rightarrow> Inl f
                           | Inr (session, s2) \<Rightarrow>
                               (let request' = request1\<lparr>rq_needsLayer := True\<rparr>;
                                    s3 = s2\<lparr>m_requestMap :=
                                              (m_requestMap s2)(requestId \<mapsto> request')\<rparr>
                                in Inr (True,
                                     fire (SessionSendPrepared (sessionRef session) request' 0)
                                       s3)))
                      | Some afterId' \<Rightarrow>
                          (let newdc = BareDcId E \<bar>dcWithShift\<bar>;
                               waiters = (case m_authWaiters s1 newdc of
                                            Some w \<Rightarrow> w | None \<Rightarrow> []);
                               s2 = s1\<lparr>m_authWaiters := (m_authWaiters s1)(newdc \<mapsto> waiters)\<rparr>
                           in if afterId' \<in> set waiters
                              then
                                (let s3 = (if requestId \<notin> set waiters
                                           then s2\<lparr>m_authWaiters :=
                                                  (m_authWaiters s2)
                                                    (newdc \<mapsto> waiters @ [requestId])\<rparr>
                                           else s2);
                                     s4 = (if afterId' \<in> m_badGuestDcRequests s3
                                           then s3\<lparr>m_badGuestDcRequests :=
                                                  insert requestId (m_badGuestDcRequests s3)\<rparr>
                                           else s3)
                                 in Inr (True, s4))
                              else
                                (case enqueueBefore requestId afterId' (m_delayedRequests s2) of
                                   None \<Rightarrow> Inr (True, s2)
                                 | Some q \<Rightarrow>
                                     (case checkDelayedRequests E
                                             (s2\<lparr>m_delayedRequests := q\<rparr>) of
                                        Inl f \<Rightarrow> Inl f
                                      | Inr s3 \<Rightarrow> Inr (True, s3)))))))))"

definition onErrorDefault ::
  "Env \<Rightarrow> Private \<Rightarrow> int \<Rightarrow> RPCError \<Rightarrow> failure + (bool \<times> Private)" where
  "onErrorDefault E s requestId error =
     (let err = errType error;
          code = errCode error;
          badGuestDc = (code = 400 \<and> err = ''FILE_ID_INVALID'');
          notHandled = (\<lambda>s'. Inr (False,
                          if badGuestDc
                          then s'\<lparr>m_badGuestDcRequests := m_badGuestDcRequests s' - {requestId}\<rparr>
                          else s'))
      in case migrateMatch err of
           Some digits \<Rightarrow> onErrorDefault_migrate E s requestId digits
         | None \<Rightarrow>
             if code < 0 \<or> code \<ge> 500 \<or> floodMatch err \<noteq> None
               then onErrorDefault_delay E s requestId code (floodMatch err)
             else if (code = 401 \<and> err \<noteq> ''AUTH_KEY_PERM_EMPTY'')
                     \<or> (badGuestDc \<and> requestId \<notin> m_badGuestDcRequests s)
               then onErrorDefault_unauthorized E s requestId error badGuestDc
             else if err = ''CONNECTION_NOT_INITED'' \<or> err = ''CONNECTION_LAYER_INVALID''
               then onErrorDefault_layer E s requestId
             else if err = ''CONNECTION_LANG_CODE_INVALID''
               then notHandled (fire LangResetToDefault s)
             else if err = ''MSG_WAIT_FAILED''
               then onErrorDefault_waitFailed E s requestId
             else notHandled s)"

subsection \<open>Start and the key destroyer\<close>

text \<open>
  The loop \<^verbatim>\<open>while (_keysForWrite.find(shiftedDcId) != _keysForWrite.cend())
  shiftedDcId = MTP::destroyKeyNextDcId(shiftedDcId)\<close>; \<open>None\<close> when it never ends.
\<close>

partial_function (option) freeDestroyDcId ::
  "(int \<Rightarrow> int) \<Rightarrow> (int \<times> AuthKeyPtr) list \<Rightarrow> int \<Rightarrow> int option" where
  "freeDestroyDcId nxt keys shiftedDcId =
     (if map_of keys shiftedDcId \<noteq> None then freeDestroyDcId nxt keys (nxt shiftedDcId)
      else Some shiftedDcId)"

text \<open>The loop of \<^verbatim>\<open>start\<close> over \<^verbatim>\<open>config.keys\<close>.\<close>

fun placeKeys :: "Env \<Rightarrow> AuthKey list \<Rightarrow> Private \<Rightarrow> failure + Private" where
  "placeKeys E [] s = Inr s"
| "placeKeys E (key # keys) s =
     (let d = key_dcId key in
      case (if isKeysDestroyer s
            then freeDestroyDcId (destroyKeyNextDcId E) (m_keysForWrite s)
                   (destroyKeyNextDcId E d)
            else Some d) of
        None \<Rightarrow> Inl Diverges
      | Some shiftedDcId \<Rightarrow>
          (let s1 = s\<lparr>m_keysForWrite := fm_assign shiftedDcId (Some key) (m_keysForWrite s)\<rparr>
           in placeKeys E keys (snd (addDc E s1 shiftedDcId (Some key)))))"

text \<open>The loop of \<^verbatim>\<open>start\<close> over \<^verbatim>\<open>_dcenters\<close>, in key order.\<close>

fun startSessions :: "Env \<Rightarrow> int list \<Rightarrow> Private \<Rightarrow> failure + Private" where
  "startSessions E [] s = Inr s"
| "startSessions E (shiftedDcId # rest) s =
     (case startSession E s shiftedDcId of
        Inl f \<Rightarrow> Inl f
      | Inr (_, s1) \<Rightarrow> startSessions E rest s1)"

definition start :: "Env \<Rightarrow> Private \<Rightarrow> Config \<Rightarrow> failure + Private" where
  "start E s config =
     (let s1 = s\<lparr>m_deviceModel := cfgDeviceModel config,
                 m_systemVersion := cfgSystemVersion config\<rparr>
      in case placeKeys E (cfgKeys config) s1 of
           Inl f \<Rightarrow> Inl f
         | Inr s2 \<Rightarrow>
             (let s3 = (if cfgMainDcId config \<noteq> kNotSetMainDc E
                        then s2\<lparr>m_mainDcId := cfgMainDcId config, m_mainDcIdForced := True\<rparr>
                        else s2)
              in case (if isKeysDestroyer s3
                         then startSessions E (map fst (m_dcenters s3)) s3
                       else if m_mainDcId s3 \<noteq> kNoneMainDc E
                         then (case startSession E s3 (m_mainDcId s3) of
                                 Inl f \<Rightarrow> Inl f
                               | Inr (session, s4) \<Rightarrow> Inr (s4\<lparr>m_mainSession := Some session\<rparr>))
                       else Inr s3) of
                   Inl f \<Rightarrow> Inl f
                 | Inr s5 \<Rightarrow>
                     (let s6 = fire TimerSetCallback s5
                      in if (m_mainDcId s6 = kNoneMainDc E) \<noteq> isKeysDestroyer s6
                         then Inl AssertFailed
                         else Inr (requestConfig s6))))"

definition completedKeyDestroy :: "Env \<Rightarrow> Private \<Rightarrow> int \<Rightarrow> failure + Private" where
  "completedKeyDestroy E s shiftedDcId =
     (if \<not> isKeysDestroyer s then Inl ExpectsFailed
      else
        (let s1 = removeDc s shiftedDcId;
             s2 = s1\<lparr>m_keysForWrite := fm_erase shiftedDcId (m_keysForWrite s1)\<rparr>
         in case killSession E s2 shiftedDcId of
              Inl f \<Rightarrow> Inl f
            | Inr s3 \<Rightarrow>
                Inr (if m_dcenters s3 = [] then fire AllKeysDestroyedFired s3 else s3)))"

text \<open>
  \<^verbatim>\<open>Private::Private\<close>: every member has its default initializer but the mode. The
  request id counter, the clock and \<^verbatim>\<open>Main::Session::Exists()\<close> are not the object's.
\<close>

definition constructed :: "Env \<Rightarrow> Mode \<Rightarrow> Private \<Rightarrow> bool" where
  "constructed E mode s \<longleftrightarrow>
     m_mode s = mode \<and> m_deviceModel s = [] \<and> m_systemVersion s = [] \<and>
     m_mainDcId s = kDefaultMainDc E \<and> \<not> m_mainDcIdForced s \<and> m_dcenters s = [] \<and>
     m_dcentersToDestroy s = [] \<and> m_mainSession s = None \<and> m_sessions s = [] \<and>
     m_sessionsToDestroy s = [] \<and> m_configLoader s = None \<and> m_userPhone s = [] \<and>
     m_cdnConfigLoadRequestId s = 0 \<and> m_keysForWrite s = [] \<and>
     m_requestsByDc s = Map.empty \<and> m_authExportRequests s = Map.empty \<and>
     m_parserMap s = Map.empty \<and> m_requestMap s = Map.empty \<and> m_delayedRequests s = [] \<and>
     m_requestsDelays s = Map.empty \<and> m_badGuestDcRequests s = {} \<and>
     m_authWaiters s = Map.empty \<and> \<not> m_globalHandlerOnFail s"

subsection \<open>An instance used to run the model\<close>

text \<open>
  An instance of the parameters (ten thousand DC ids per shift, signs as C++ division
  and remainder give them) and a state with a main session on DC 2. The sums and
  products of the instance are those of the integers: it stands for the layout on
  ids whose shifted forms fit an \<^verbatim>\<open>int\<close>, and is used on such ids only.
\<close>

definition sampleEnv :: Env where
  "sampleEnv =
     \<lparr>BareDcId = (\<lambda>x. sgn x * (\<bar>x\<bar> mod 10000)),
      ShiftDcId = (\<lambda>d v. d + 10000 * v),
      GetDcIdShift = (\<lambda>x. sgn x * (\<bar>x\<bar> div 10000)),
      destroyKeyNextDcId =
        (\<lambda>x. (sgn x * (\<bar>x\<bar> mod 10000))
               + 10000 * (if sgn x * (\<bar>x\<bar> div 10000) \<noteq> 0
                          then sgn x * (\<bar>x\<bar> div 10000) + 1 else 256)),
      isTemporaryDcId = (\<lambda>x. sgn x * (\<bar>x\<bar> mod 10000) \<ge> 1000),
      getRealIdFromTemporaryDcId =
        (\<lambda>x. if sgn x * (\<bar>x\<bar> mod 10000) \<ge> 1000
              then sgn x * (\<bar>x\<bar> mod 10000) - 1000 else 0),
      kNoneMainDc = -1, kNotSetMainDc = 0, kDefaultMainDc = 2,
      dcTypeIsCdn = (\<lambda>x. False),
      serialize = (\<lambda>q. case q of AuthLogOut \<Rightarrow> [1] | DestroyAuthKey \<Rightarrow> [2]
                     | AuthExportAuthorization d \<Rightarrow> [3, d] | HelpGetCdnConfig \<Rightarrow> [4]),
      sendNeedsLayer = True\<rparr>"

definition sampleState :: Private where
  "sampleState =
     \<lparr>m_mode = Normal, m_deviceModel = [], m_systemVersion = [], m_mainDcId = 2,
      m_mainDcIdForced = False, m_dcenters = [(2, \<lparr>dcenterId = 2, dcenterKey = None\<rparr>)],
      m_dcentersToDestroy = [],
      m_mainSession = Some \<lparr>sessionRef = 0, getDcWithShift = 2\<rparr>,
      m_sessions = [(2, \<lparr>sessionRef = 0, getDcWithShift = 2\<rparr>)],
      m_sessionsToDestroy = [], m_configLoader = None, m_userPhone = [],
      m_cdnConfigLoadRequestId = 0, m_keysForWrite = [],
      m_requestsByDc = Map.empty, m_authExportRequests = Map.empty,
      m_parserMap = Map.empty, m_requestMap = Map.empty, m_delayedRequests = [],
      m_requestsDelays = Map.empty, m_badGuestDcRequests = {}, m_authWaiters = Map.empty,
      m_globalHandlerOnFail = True, GlobalAtomicRequestId = 0, sessionExists = True,
      nextSessionRef = 1, clock = (\<lambda>n. 1000 + int n), clockReads = 0, events = []\<rparr>"

subsection \<open>Notions used to state the properties\<close>

text \<open>
  \<open>requestFrame\<close>: what starting a session in normal mode leaves alone.
  \<open>sentPrepared\<close>: the requests handed to sessions, in order. \<open>dueRequests\<close>: the
  stored requests of the leading queue entries that are due and have a routing.
\<close>

definition requestFrame :: "Private \<Rightarrow> Private \<Rightarrow> bool" where
  "requestFrame s s' \<longleftrightarrow>
     sendFrame s s' \<and> m_requestMap s' = m_requestMap s \<and>
     m_requestsByDc s' = m_requestsByDc s \<and> m_parserMap s' = m_parserMap s \<and>
     GlobalAtomicRequestId s' = GlobalAtomicRequestId s \<and> clockReads s' = clockReads s"

definition sentPrepared :: "Event list \<Rightarrow> SerializedRequest list" where
  "sentPrepared evs =
     concat (map (\<lambda>e. case e of SessionSendPrepared _ r _ \<Rightarrow> [r] | _ \<Rightarrow> []) evs)"

definition dueRequests ::
  "(int \<rightharpoonup> int) \<Rightarrow> (int \<rightharpoonup> SerializedRequest) \<Rightarrow> int \<Rightarrow> (int \<times> int) list
     \<Rightarrow> SerializedRequest list" where
  "dueRequests byDc requests now q =
     concat (map (\<lambda>e. case (byDc (fst e), requests (fst e)) of
                         (Some _, Some r) \<Rightarrow> [r]
                       | _ \<Rightarrow> [])
               (takeWhile (\<lambda>e. snd e \<le> now) q))"

text \<open>A request stored under id 7 and routed to DC 2.\<close>

definition sampleRequest :: SerializedRequest where
  "sampleRequest =
     \<lparr>rq_buffer = [0, 0, 0, 0, 11, 22], rq_requestId = 7, rq_after = None,
      rq_lastSentTime = 990, rq_needsLayer = True\<rparr>"

definition sampleSent :: Private where
  "sampleSent =
     sampleState
       \<lparr>m_requestsByDc := [7 \<mapsto> 2],
        m_parserMap := [7 \<mapsto> \<lparr>onDone = Some (UserCallback 0), onFail = Some (UserCallback 0)\<rparr>],
        m_requestMap := [7 \<mapsto> sampleRequest],
        GlobalAtomicRequestId := 7\<rparr>"

text \<open>\<open>n\<close> errors in a row, all the same, for one request.\<close>

fun repeatError :: "Env \<Rightarrow> nat \<Rightarrow> int \<Rightarrow> RPCError \<Rightarrow> Private \<Rightarrow> failure + Private" where
  "repeatError E 0 requestId error s = Inr s"
| "repeatError E (Suc n) requestId error s =
     (case onErrorDefault E s requestId error of
        Inl f \<Rightarrow> Inl f
      | Inr (_, s1) \<Rightarrow> repeatError E n requestId error s1)"

text \<open>
  The buffer as bytes (each element gives four, the low one first), the value of
  a run of bytes read as one unsigned integer, and the spec's words for the message
  id: "bytes 4..12 of the original payload".
\<close>

definition payloadBytes :: "int list \<Rightarrow> int list" where
  "payloadBytes buf =
     concat (map (\<lambda>w. [w mod 256, w div 256 mod 256, w div 65536 mod 256,
                        w div 16777216 mod 256]) buf)"

definition bytesValue :: "int list \<Rightarrow> int" where
  "bytesValue bs = foldr (\<lambda>b v. b + 256 * v) bs 0"

definition specMsgId :: "int list \<Rightarrow> int" where
  "specMsgId buf = bytesValue (take 8 (drop 4 (payloadBytes buf)))"

definition hasCallbacks :: "Private \<Rightarrow> int \<Rightarrow> bool" where
  "hasCallbacks s requestId = (m_parserMap s requestId \<noteq> None)"

text \<open>
  What holds of the session registry once sessions are made by \<^verbatim>\<open>startSession\<close> only:
  a session is stored under its own shifted DC id, that id is positive and has a bare
  DC, and the main session is one of the stored sessions.
\<close>

definition sessionsOk :: "Env \<Rightarrow> Private \<Rightarrow> bool" where
  "sessionsOk E s \<longleftrightarrow>
     (\<forall>k x. map_of (m_sessions s) k = Some x \<longrightarrow>
        getDcWithShift x = k \<and> 0 < k \<and> BareDcId E k \<noteq> 0)
     \<and> (\<forall>m. m_mainSession s = Some m \<longrightarrow>
          map_of (m_sessions s) (getDcWithShift m) = Some m)"

subsection \<open>Notions used for the key destroyer\<close>

text \<open>
  \<open>completeKeys\<close>: \<^verbatim>\<open>completedKeyDestroy\<close> called for each id of a list, in order.
  \<open>signalCount\<close>: how often \<^verbatim>\<open>_allKeysDestroyed.fire\<close> was called. \<open>placedBy\<close>: every
  entry of the key registry holds a key, under its DC id moved by
  \<^verbatim>\<open>destroyKeyNextDcId\<close> once or more. \<open>sampleDestroyer\<close>, \<open>sampleKeys\<close>: a newly
  constructed key destroyer and a config with keys for the DCs 2, 3 and 3.
\<close>

fun completeKeys :: "Env \<Rightarrow> int list \<Rightarrow> Private \<Rightarrow> failure + Private" where
  "completeKeys E [] s = Inr s"
| "completeKeys E (shiftedDcId # rest) s =
     (case completedKeyDestroy E s shiftedDcId of
        Inl f \<Rightarrow> Inl f
      | Inr s1 \<Rightarrow> completeKeys E rest s1)"

definition signalCount :: "Event list \<Rightarrow> nat" where
  "signalCount evs = length (filter (\<lambda>e. e = AllKeysDestroyedFired) evs)"

definition placedBy :: "(int \<Rightarrow> int) \<Rightarrow> (int \<times> AuthKeyPtr) list \<Rightarrow> bool" where
  "placedBy nxt reg \<longleftrightarrow>
     (\<forall>k v. map_of reg k = Some v \<longrightarrow>
        (\<exists>key n. v = Some key \<and> k = (nxt ^^ Suc n) (key_dcId key)))"

definition sampleDestroyer :: Private where
  "sampleDestroyer =
     sampleState
       \<lparr>m_mode := KeysDestroyer, m_dcenters := [], m_mainSession := None, m_sessions := [],
        m_globalHandlerOnFail := False, nextSessionRef := 0\<rparr>"

definition sampleKeys :: Config where
  "sampleKeys =
     \<lparr>cfgDeviceModel = ''PC'', cfgSystemVersion = ''Linux'',
      cfgKeys = [AuthKey 0 2, AuthKey 1 3, AuthKey 2 3], cfgMainDcId = - 1\<rparr>"

section \<open>Properties\<close>

subsection \<open>The request id allocator\<close>

lemma GetNextRequestId_step:
  assumes "0 \<le> c" "c < kIntMax div 2"
  shows "fst (GetNextRequestId c) = c + 1"
    and "snd (GetNextRequestId c) = (if c + 1 = kIntMax div 2 then 0 else c + 1)"
  using assms by (simp_all add: GetNextRequestId_def wrapInt32_def kIntMax_def Let_def)

lemma allocations_inv:
  "0 \<le> c \<Longrightarrow> c < kIntMax div 2 \<Longrightarrow>
     (\<forall>r \<in> set (fst (allocations n c)). 0 < r \<and> r \<le> kIntMax div 2) \<and>
     0 \<le> snd (allocations n c) \<and> snd (allocations n c) < kIntMax div 2"
proof (induction n arbitrary: c)
  case 0
  then show ?case by simp
next
  case (Suc n)
  let ?c1 = "snd (GetNextRequestId c)"
  have f: "fst (GetNextRequestId c) = c + 1"
    and s: "?c1 = (if c + 1 = kIntMax div 2 then 0 else c + 1)"
    using GetNextRequestId_step [OF Suc.prems] by simp_all
  have r: "0 \<le> ?c1" "?c1 < kIntMax div 2"
    using Suc.prems s by (auto simp: kIntMax_def)
  from Suc.IH [OF r] f Suc.prems show ?case
    by (auto simp: split_beta)
qed

lemma allocations_fresh:
  "0 \<le> c \<Longrightarrow> c + int n < kIntMax div 2 \<Longrightarrow>
     fst (allocations n c) = map (\<lambda>i. c + 1 + int i) [0..<n]
     \<and> snd (allocations n c) = c + int n"
proof (induction n arbitrary: c)
  case 0
  then show ?case by simp
next
  case (Suc n)
  have c: "c < kIntMax div 2" using Suc.prems by simp
  have f: "fst (GetNextRequestId c) = c + 1" and s: "snd (GetNextRequestId c) = c + 1"
    using GetNextRequestId_step [OF Suc.prems(1) c] Suc.prems by simp_all
  have "0 \<le> c + 1" "c + 1 + int n < kIntMax div 2" using Suc.prems by simp_all
  from Suc.IH [OF this] f s show ?case
    by (simp add: split_beta upt_rec [of 0 "Suc n"] map_Suc_upt [symmetric] del: upt_Suc)
qed

lemma distinct_allocations:
  assumes "int n < kIntMax div 2"
  shows "distinct (fst (allocations n 0))"
proof -
  have "fst (allocations n 0) = map (\<lambda>i. 0 + 1 + int i) [0..<n]"
    using allocations_fresh [of 0 n] assms by simp
  moreover have "inj_on (\<lambda>i. 0 + 1 + int i) (set [0..<n])"
    by (rule inj_onI) simp
  ultimately show ?thesis by (simp add: distinct_map)
qed

text \<open>
  Claim C7. While the counter is where the allocator leaves it (from 0 up to, not
  including, half of \<^verbatim>\<open>INT_MAX\<close>), the id returned is positive and the counter stays
  there; so every id of every run from a fresh counter is positive, never 0. When the
  id returned is half of \<^verbatim>\<open>INT_MAX\<close> the counter is reset to 0: from the counter
  \<^verbatim>\<open>INT_MAX/2 - 1\<close> the next two ids are \<^verbatim>\<open>INT_MAX/2\<close> and 1. The ids of a run of
  fewer than \<^verbatim>\<open>INT_MAX/2\<close> allocations from a fresh counter are distinct.
\<close>

theorem C7_request_id_allocator:
  "(\<forall>c. 0 \<le> c \<and> c < kIntMax div 2 \<longrightarrow>
       0 < fst (GetNextRequestId c) \<and> 0 \<le> snd (GetNextRequestId c)
       \<and> snd (GetNextRequestId c) < kIntMax div 2)
   \<and> (\<forall>n. \<forall>r \<in> set (fst (allocations n 0)). 0 < r)
   \<and> (\<forall>c. fst (GetNextRequestId c) = kIntMax div 2 \<longrightarrow> snd (GetNextRequestId c) = 0)
   \<and> allocations 2 (kIntMax div 2 - 1) = ([kIntMax div 2, 1], 1)
   \<and> (\<forall>n. int n < kIntMax div 2 \<longrightarrow> distinct (fst (allocations n 0)))"
proof (intro conjI allI impI ballI)
  fix c :: int assume "0 \<le> c \<and> c < kIntMax div 2"
  then show "0 < fst (GetNextRequestId c)" "0 \<le> snd (GetNextRequestId c)"
    "snd (GetNextRequestId c) < kIntMax div 2"
    using GetNextRequestId_step [of c] by (auto simp: kIntMax_def)
next
  fix n r assume "r \<in> set (fst (allocations n 0))"
  then show "0 < r" using allocations_inv [of 0 n] by (auto simp: kIntMax_def)
next
  fix c assume "fst (GetNextRequestId c) = kIntMax div 2"
  then show "snd (GetNextRequestId c) = 0" by (simp add: GetNextRequestId_def Let_def)
next
  show "allocations 2 (kIntMax div 2 - 1) = ([kIntMax div 2, 1], 1)"
    by (simp add: numeral_2_eq_2 GetNextRequestId_def wrapInt32_def kIntMax_def Let_def)
next
  fix n assume "int n < kIntMax div 2"
  then show "distinct (fst (allocations n 0))" by (rule distinct_allocations)
qed

theorem C7_request_id_allocator_witness:
  "(0::int) \<le> 5 \<and> 5 < kIntMax div 2 \<and> 0 < fst (GetNextRequestId 5)
   \<and> fst (GetNextRequestId (kIntMax div 2 - 1)) = kIntMax div 2
   \<and> snd (GetNextRequestId (kIntMax div 2 - 1)) = 0
   \<and> int 3 < kIntMax div 2 \<and> distinct (fst (allocations 3 0))
   \<and> fst (allocations 3 0) = [1, 2, 3]"
  using C7_request_id_allocator
  by (simp add: numeral_3_eq_3 GetNextRequestId_def wrapInt32_def kIntMax_def Let_def)

subsection \<open>The routing map\<close>

text \<open>
  Claim C6. For a request id in the routing map, \<^verbatim>\<open>changeRequestByDc\<close> stores and
  returns \<open>- newdc\<close> when the stored value is negative and
  \<open>ShiftDcId newdc (GetDcIdShift stored)\<close> otherwise, and changes nothing else: a
  negative value stays negative for a positive \<open>newdc\<close>, and the shift stays where
  the layout reads back the shift it has written. For an id that is not in the map
  the state is unchanged and the result is \<open>None\<close>.
\<close>

theorem C6_changeRequestByDc:
  "(\<forall>stored. m_requestsByDc s requestId = Some stored \<longrightarrow>
      (let new = (if stored < 0 then - newdc
                  else ShiftDcId E newdc (GetDcIdShift E stored))
       in changeRequestByDc E s requestId newdc
            = (Some new, s\<lparr>m_requestsByDc := (m_requestsByDc s)(requestId \<mapsto> new)\<rparr>)
          \<and> (0 < newdc \<and> stored < 0 \<longrightarrow> new < 0)
          \<and> (0 \<le> stored
              \<and> GetDcIdShift E (ShiftDcId E newdc (GetDcIdShift E stored))
                  = GetDcIdShift E stored
              \<longrightarrow> GetDcIdShift E new = GetDcIdShift E stored)))
   \<and> (m_requestsByDc s requestId = None \<longrightarrow>
        changeRequestByDc E s requestId newdc = (None, s))"
  by (simp add: changeRequestByDc_def Let_def)

theorem C6_changeRequestByDc_witness:
  "m_requestsByDc (sampleState\<lparr>m_requestsByDc := [7 \<mapsto> 20003, 8 \<mapsto> - 2]\<rparr>) 7 = Some 20003
   \<and> fst (changeRequestByDc sampleEnv
            (sampleState\<lparr>m_requestsByDc := [7 \<mapsto> 20003, 8 \<mapsto> - 2]\<rparr>) 7 4) = Some 20004
   \<and> fst (changeRequestByDc sampleEnv
            (sampleState\<lparr>m_requestsByDc := [7 \<mapsto> 20003, 8 \<mapsto> - 2]\<rparr>) 8 4) = Some (- 4)
   \<and> m_requestsByDc (sampleState\<lparr>m_requestsByDc := [7 \<mapsto> 20003, 8 \<mapsto> - 2]\<rparr>) 9 = None
   \<and> changeRequestByDc sampleEnv
        (sampleState\<lparr>m_requestsByDc := [7 \<mapsto> 20003, 8 \<mapsto> - 2]\<rparr>) 9 4
      = (None, sampleState\<lparr>m_requestsByDc := [7 \<mapsto> 20003, 8 \<mapsto> - 2]\<rparr>)"
  using
    C6_changeRequestByDc
      [of "sampleState\<lparr>m_requestsByDc := [7 \<mapsto> 20003, 8 \<mapsto> - 2]\<rparr>" 7 4 sampleEnv]
    C6_changeRequestByDc
      [of "sampleState\<lparr>m_requestsByDc := [7 \<mapsto> 20003, 8 \<mapsto> - 2]\<rparr>" 8 4 sampleEnv]
    C6_changeRequestByDc
      [of "sampleState\<lparr>m_requestsByDc := [7 \<mapsto> 20003, 8 \<mapsto> - 2]\<rparr>" 9 4 sampleEnv]
  by (simp add: sampleEnv_def sampleState_def Let_def)

subsection \<open>The key registry\<close>

text \<open>
  Claim C10. \<^verbatim>\<open>dcPersistentKeyChanged(dcId, key)\<close> fires the temporary-key-changed
  event for \<open>dcId\<close> first and once; the only other thing it may do to collaborators
  is one \<^verbatim>\<open>Local::writeMtpData()\<close> after it. When \<open>dcId\<close> is a temporary DC id, or
  the registry maps \<open>dcId\<close> to this very key, or \<open>dcId\<close> is not in the registry
  and the key is null, nothing but the event happens: the registry stays as it is
  and nothing is written.
\<close>

theorem C10_dcPersistentKeyChanged:
  "(\<exists>rest. events (dcPersistentKeyChanged E s d key)
             = events s @ DcTemporaryKeyChangedFired d # rest
           \<and> (rest = [] \<or> rest = [WriteMtpData]))
   \<and> (isTemporaryDcId E d \<or> map_of (m_keysForWrite s) d = Some key
        \<or> (map_of (m_keysForWrite s) d = None \<and> key = None)
       \<longrightarrow> dcPersistentKeyChanged E s d key
             = s\<lparr>events := events s @ [DcTemporaryKeyChangedFired d]\<rparr>
           \<and> m_keysForWrite (dcPersistentKeyChanged E s d key) = m_keysForWrite s
           \<and> WriteMtpData \<notin> set (drop (length (events s))
                                   (events (dcPersistentKeyChanged E s d key))))"
  by (auto simp: dcPersistentKeyChanged_def dcTemporaryKeyChanged_def fire_def Let_def)

theorem C10_dcPersistentKeyChanged_witness:
  "isTemporaryDcId sampleEnv 1002
   \<and> m_keysForWrite (dcPersistentKeyChanged sampleEnv
        (sampleState\<lparr>m_keysForWrite := [(2, Some (AuthKey 1 2))]\<rparr>) 1002 (Some (AuthKey 5 2)))
       = [(2, Some (AuthKey 1 2))]
   \<and> events (dcPersistentKeyChanged sampleEnv
        (sampleState\<lparr>m_keysForWrite := [(2, Some (AuthKey 1 2))]\<rparr>) 2 (Some (AuthKey 1 2)))
       = [DcTemporaryKeyChangedFired 2]
   \<and> events (dcPersistentKeyChanged sampleEnv
        (sampleState\<lparr>m_keysForWrite := [(2, Some (AuthKey 1 2))]\<rparr>) 3 None)
       = [DcTemporaryKeyChangedFired 3]
   \<and> events (dcPersistentKeyChanged sampleEnv
        (sampleState\<lparr>m_keysForWrite := [(2, Some (AuthKey 1 2))]\<rparr>) 2 (Some (AuthKey 5 2)))
       = [DcTemporaryKeyChangedFired 2, WriteMtpData]"
  using
    C10_dcPersistentKeyChanged
      [of sampleEnv "sampleState\<lparr>m_keysForWrite := [(2, Some (AuthKey 1 2))]\<rparr>" 1002
          "Some (AuthKey 5 2)"]
    C10_dcPersistentKeyChanged
      [of sampleEnv "sampleState\<lparr>m_keysForWrite := [(2, Some (AuthKey 1 2))]\<rparr>" 2
          "Some (AuthKey 1 2)"]
    C10_dcPersistentKeyChanged
      [of sampleEnv "sampleState\<lparr>m_keysForWrite := [(2, Some (AuthKey 1 2))]\<rparr>" 3 None]
  by (simp add: sampleEnv_def sampleState_def dcPersistentKeyChanged_def
      dcTemporaryKeyChanged_def fire_def Let_def fm_assign_def fm_erase_def)

subsection \<open>The config controller\<close>

lemma sendRequest_frame:
  "sendRequest E s requestId request callbacks shiftedDcId msCanWait nl afterRequestId = Inr s'
     \<Longrightarrow> sendFrame s s'"
  by (auto simp: sendRequest_def split: sum.splits
      dest!: getSession_frame intro: sendFrame_trans [OF _ sendRequestTo_frame])

lemma send_result:
  assumes "send E s payload callbacks shiftedDcId msCanWait nl afterRequestId = Inr (requestId, s')"
  shows "requestId = fst (GetNextRequestId (GlobalAtomicRequestId s))" and "sendFrame s s'"
  using assms sendRequest_frame [of E "s\<lparr>GlobalAtomicRequestId := snd (GetNextRequestId (GlobalAtomicRequestId s))\<rparr>"]
  by (auto simp: send_def sendFrame_def split: prod.splits sum.splits)

text \<open>
  Claim C8. \<^verbatim>\<open>requestConfig()\<close> changes nothing when a config loader is active or
  the instance destroys keys; otherwise it makes the one loader and starts it, and a
  second call changes nothing. \<^verbatim>\<open>requestCDNConfig()\<close> changes nothing when a
  CDN-config request is pending or there is no main DC; otherwise the id of the
  request it sends, which is not 0, is the pending one, and a second call changes
  nothing.
\<close>

theorem C8_single_loaders:
  "(m_configLoader s \<noteq> None \<or> isKeysDestroyer s \<longrightarrow> requestConfig s = s)
   \<and> (m_configLoader s = None \<and> \<not> isKeysDestroyer s \<longrightarrow>
        m_configLoader (requestConfig s) \<noteq> None
        \<and> events (requestConfig s) = events s @ [ConfigLoaderLoad]
        \<and> requestConfig (requestConfig s) = requestConfig s)
   \<and> (m_cdnConfigLoadRequestId s \<noteq> 0 \<or> m_mainDcId s = kNoneMainDc E \<longrightarrow>
        requestCDNConfig E s = Inr s)
   \<and> (\<forall>s'. m_cdnConfigLoadRequestId s = 0 \<and> m_mainDcId s \<noteq> kNoneMainDc E
         \<and> 0 \<le> GlobalAtomicRequestId s \<and> GlobalAtomicRequestId s < kIntMax div 2
         \<and> requestCDNConfig E s = Inr s' \<longrightarrow>
        m_cdnConfigLoadRequestId s' = GlobalAtomicRequestId s + 1
        \<and> m_cdnConfigLoadRequestId s' \<noteq> 0
        \<and> m_requestMap s' (m_cdnConfigLoadRequestId s') \<noteq> None
        \<and> requestCDNConfig E s' = Inr s')"
proof (intro conjI allI impI)
  show "requestConfig s = s" if "m_configLoader s \<noteq> None \<or> isKeysDestroyer s"
    using that by (auto simp: requestConfig_def)
next
  assume a: "m_configLoader s = None \<and> \<not> isKeysDestroyer s"
  then show "m_configLoader (requestConfig s) \<noteq> None"
    and "events (requestConfig s) = events s @ [ConfigLoaderLoad]"
    and "requestConfig (requestConfig s) = requestConfig s"
    by (simp_all add: requestConfig_def fire_def isKeysDestroyer_def)
next
  show "requestCDNConfig E s = Inr s"
    if "m_cdnConfigLoadRequestId s \<noteq> 0 \<or> m_mainDcId s = kNoneMainDc E"
    using that by (auto simp: requestCDNConfig_def)
next
  fix s'
  assume a: "m_cdnConfigLoadRequestId s = 0 \<and> m_mainDcId s \<noteq> kNoneMainDc E
         \<and> 0 \<le> GlobalAtomicRequestId s \<and> GlobalAtomicRequestId s < kIntMax div 2
         \<and> requestCDNConfig E s = Inr s'"
  then obtain requestId s1 where
    snd: "send E s (serialize E HelpGetCdnConfig) \<lparr>onDone = Some CdnConfigDone, onFail = None\<rparr>
            0 0 (sendNeedsLayer E) 0 = Inr (requestId, s1)"
    and s': "s' = s1\<lparr>m_cdnConfigLoadRequestId := requestId\<rparr>"
    by (auto simp: requestCDNConfig_def split: sum.splits)
  have id: "requestId = GlobalAtomicRequestId s + 1"
    using send_result(1) [OF snd] GetNextRequestId_step(1) [of "GlobalAtomicRequestId s"] a
    by simp
  show 1: "m_cdnConfigLoadRequestId s' = GlobalAtomicRequestId s + 1"
    using s' id by simp
  then show 2: "m_cdnConfigLoadRequestId s' \<noteq> 0" using a by simp
  then show "requestCDNConfig E s' = Inr s'" by (simp add: requestCDNConfig_def)
  show "m_requestMap s' (m_cdnConfigLoadRequestId s') \<noteq> None"
    using snd s'
    by (auto simp: send_def sendRequest_def sendRequestTo_def storeRequest_def
        registerRequest_def crl_now_def fire_def Let_def emplaceMap_def
        split: prod.splits sum.splits option.splits)
qed

theorem C8_single_loaders_witness:
  "m_configLoader sampleState = None \<and> \<not> isKeysDestroyer sampleState
   \<and> events (requestConfig sampleState) = [ConfigLoaderLoad]
   \<and> requestConfig (requestConfig sampleState) = requestConfig sampleState
   \<and> m_cdnConfigLoadRequestId sampleState = 0 \<and> m_mainDcId sampleState \<noteq> kNoneMainDc sampleEnv
   \<and> (\<exists>s'. requestCDNConfig sampleEnv sampleState = Inr s'
         \<and> m_cdnConfigLoadRequestId s' = 1
         \<and> requestCDNConfig sampleEnv s' = Inr s')"
proof -
  obtain s' where r: "requestCDNConfig sampleEnv sampleState = Inr s'"
    by (simp add: requestCDNConfig_def send_def sendRequest_def getSession_def
        GetNextRequestId_def wrapInt32_def kIntMax_def Let_def sampleState_def sampleEnv_def)
  have h: "m_configLoader sampleState = None" "\<not> isKeysDestroyer sampleState"
    "m_cdnConfigLoadRequestId sampleState = 0" "m_mainDcId sampleState \<noteq> kNoneMainDc sampleEnv"
    "0 \<le> GlobalAtomicRequestId sampleState" "GlobalAtomicRequestId sampleState < kIntMax div 2"
    "GlobalAtomicRequestId sampleState = 0" "events sampleState = []"
    by (simp_all add: sampleState_def sampleEnv_def isKeysDestroyer_def kIntMax_def)
  show ?thesis
    using C8_single_loaders [of sampleState sampleEnv] r h by auto
qed

subsection \<open>The delayed scheduler\<close>

lemma enqueueDelayed_eq:
  "enqueueDelayed i t q =
     (if i \<in> fst ` set (takeWhile (\<lambda>e. snd e \<le> t) q)
         \<or> (case dropWhile (\<lambda>e. snd e \<le> t) q of [] \<Rightarrow> False | e # _ \<Rightarrow> fst e = i)
      then None
      else Some (takeWhile (\<lambda>e. snd e \<le> t) q @ (i, t) # dropWhile (\<lambda>e. snd e \<le> t) q))"
  by (induction q) auto

lemma enqueueDelayed_sorted:
  assumes "sorted (map snd q)" "enqueueDelayed i t q = Some q'"
  shows "sorted (map snd q')"
proof -
  let ?P = "\<lambda>e. snd e \<le> t"
  have q': "q' = takeWhile ?P q @ (i, t) # dropWhile ?P q"
    using assms(2) by (simp add: enqueueDelayed_eq split: if_splits)
  have "sorted (map snd (takeWhile ?P q @ dropWhile ?P q))"
    using assms(1) by simp
  then have s: "sorted (map snd (takeWhile ?P q))" "sorted (map snd (dropWhile ?P q))"
    by (simp_all only: map_append sorted_append)
  have a: "\<forall>e \<in> set (takeWhile ?P q). snd e \<le> t"
    by (auto dest: set_takeWhileD)
  have "\<forall>e \<in> set (dropWhile ?P q). t < snd e"
  proof (cases "dropWhile ?P q")
    case Nil
    show ?thesis unfolding Nil by simp
  next
    case (Cons e es)
    then have "\<not> ?P e" using hd_dropWhile [of ?P q] by (metis list.sel(1) list.simps(3))
    moreover have "\<forall>x \<in> set es. snd e \<le> snd x"
      using s(2) Cons by simp
    ultimately show ?thesis using Cons by auto
  qed
  with a s show ?thesis
    unfolding q' by (fastforce simp: sorted_append)
qed

lemma checkDelayedLoop_queue:
  "checkDelayedLoop E now s = Inr s' \<Longrightarrow>
     m_delayedRequests s' = dropWhile (\<lambda>e. snd e \<le> now) (m_delayedRequests s)
     \<and> m_requestsDelays s' = m_requestsDelays s"
proof (induction E now s rule: checkDelayedLoop.induct)
  case (1 E now s)
  show ?case
  proof (cases "m_delayedRequests s")
    case Nil
    with "1.prems" show ?thesis by (simp add: checkDelayedLoop.simps [of E now s])
  next
    case (Cons front rest)
    show ?thesis
    proof (cases "now \<ge> snd front")
      case False
      with Cons "1.prems" show ?thesis by (simp add: checkDelayedLoop.simps [of E now s])
    next
      case True
      let ?s1 = "s\<lparr>m_delayedRequests := rest\<rparr>"
      show ?thesis
      proof (cases "queryRequestByDc ?s1 (fst front)")
        case None
        with Cons True "1.prems" have "checkDelayedLoop E now ?s1 = Inr s'"
          by (simp add: checkDelayedLoop.simps [of E now s])
        from "1.IH"(1) [OF Cons True refl refl None this] Cons True show ?thesis by simp
      next
        case (Some dcWithShift)
        note q = Some
        show ?thesis
        proof (cases "m_requestMap ?s1 (fst front)")
          case None
          with Cons True q "1.prems" have "checkDelayedLoop E now ?s1 = Inr s'"
            by (simp add: checkDelayedLoop.simps [of E now s])
          from "1.IH"(2) [OF Cons True refl refl q None this] Cons True show ?thesis by simp
        next
          case (Some request)
          with Cons True q "1.prems" obtain session s2 where
            g: "getSession E ?s1 \<bar>dcWithShift\<bar> = Inr (session, s2)"
            and r: "checkDelayedLoop E now
                      (fire (SessionSendPrepared (sessionRef session) request 0) s2) = Inr s'"
            by (auto simp: checkDelayedLoop.simps [of E now s] split: sum.splits)
          have f: "sendFrame ?s1 s2" using getSession_frame [OF g] .
          from "1.IH"(3) [OF Cons True refl refl q Some g refl r] f Cons True
          show ?thesis by (simp add: sendFrame_def fire_def)
        qed
      qed
    qed
  qed
qed


lemma sentPrepared_append [simp]: "sentPrepared (a @ b) = sentPrepared a @ sentPrepared b"
  by (simp add: sentPrepared_def)

lemma getDcById_requestFrame: "getDcById E s k = (dc, s') \<Longrightarrow> requestFrame s s' \<and> events s' = events s"
  by (auto simp: getDcById_def addDc_def findDc_def Let_def sendFrame_def requestFrame_def
      split: option.splits if_splits)

lemma startSession_normal_eq:
  assumes "m_mode s = Normal" "startSession E s k = Inr (x, s')"
  shows "s' = fire (SessionStart (sessionRef x))
                (snd (getDcById E s k)
                   \<lparr>nextSessionRef := Suc (nextSessionRef (snd (getDcById E s k))),
                    m_sessions := fm_emplace k
                       \<lparr>sessionRef = nextSessionRef (snd (getDcById E s k)), getDcWithShift = k\<rparr>
                       (m_sessions (snd (getDcById E s k)))\<rparr>)"
proof -
  obtain dc s1 where d: "getDcById E s k = (dc, s1)" by (cases "getDcById E s k")
  have "m_mode s1 = Normal"
    using getDcById_frame [OF d] assms(1) by (simp add: sendFrame_def)
  then show ?thesis
    using assms(2) d
    by (auto simp: startSession_def Let_def isKeysDestroyer_def fire_def split: if_splits)
qed

lemma startSession_normal:
  assumes "m_mode s = Normal" "startSession E s k = Inr (x, s')"
  shows "requestFrame s s'" and "events s' = events s @ [SessionStart (sessionRef x)]"
proof -
  obtain dc s1 where d: "getDcById E s k = (dc, s1)" by (cases "getDcById E s k")
  have f: "requestFrame s s1" "events s1 = events s"
    using getDcById_requestFrame [OF d] by simp_all
  note e = startSession_normal_eq [OF assms, unfolded d snd_conv]
  show "requestFrame s s'"
    using f(1) unfolding e by (simp add: requestFrame_def sendFrame_def fire_def)
  show "events s' = events s @ [SessionStart (sessionRef x)]"
    using f(2) unfolding e by (simp add: fire_def)
qed

lemma requestFrame_refl: "requestFrame s s"
  by (simp add: requestFrame_def sendFrame_def)

lemma getSession_normal:
  assumes "m_mode s = Normal" "getSession E s k = Inr (x, s')"
  shows "requestFrame s s'"
    and "events s' = events s \<or> events s' = events s @ [SessionStart (sessionRef x)]"
proof -
  have "(s' = s) \<or> (\<exists>k'. startSession E s k' = Inr (x, s'))"
    using assms(2)
    by (auto simp: getSession_def split: if_splits option.splits sum.splits)
  then show "requestFrame s s'"
    and "events s' = events s \<or> events s' = events s @ [SessionStart (sessionRef x)]"
    using startSession_normal [OF assms(1)] requestFrame_refl by blast+
qed

lemma checkDelayedLoop_normal:
  "m_mode s = Normal \<Longrightarrow> checkDelayedLoop E now s = Inr s' \<Longrightarrow>
     m_mode s' = Normal \<and> m_requestMap s' = m_requestMap s
     \<and> m_requestsByDc s' = m_requestsByDc s
     \<and> (\<exists>new. events s' = events s @ new
           \<and> sentPrepared new
               = dueRequests (m_requestsByDc s) (m_requestMap s) now (m_delayedRequests s))"
proof (induction E now s rule: checkDelayedLoop.induct)
  case (1 E now s)
  show ?case
  proof (cases "m_delayedRequests s")
    case Nil
    with "1.prems" show ?thesis
      by (simp add: checkDelayedLoop.simps [of E now s] dueRequests_def sentPrepared_def)
  next
    case (Cons front rest)
    show ?thesis
    proof (cases "now \<ge> snd front")
      case False
      with Cons "1.prems" show ?thesis
        by (simp add: checkDelayedLoop.simps [of E now s] dueRequests_def sentPrepared_def)
    next
      case True
      let ?s1 = "s\<lparr>m_delayedRequests := rest\<rparr>"
      have n1: "m_mode ?s1 = Normal" using "1.prems" by simp
      show ?thesis
      proof (cases "queryRequestByDc ?s1 (fst front)")
        case None
        with Cons True "1.prems" have "checkDelayedLoop E now ?s1 = Inr s'"
          by (simp add: checkDelayedLoop.simps [of E now s])
        from "1.IH"(1) [OF Cons True refl refl None n1 this] Cons True None show ?thesis
          by (simp add: dueRequests_def queryRequestByDc_def)
      next
        case (Some dcWithShift)
        note q = Some
        show ?thesis
        proof (cases "m_requestMap ?s1 (fst front)")
          case None
          with Cons True q "1.prems" have "checkDelayedLoop E now ?s1 = Inr s'"
            by (simp add: checkDelayedLoop.simps [of E now s])
          from "1.IH"(2) [OF Cons True refl refl q None n1 this] Cons True None q show ?thesis
            by (simp add: dueRequests_def queryRequestByDc_def)
        next
          case (Some request)
          with Cons True q "1.prems" obtain session s2 where
            g: "getSession E ?s1 \<bar>dcWithShift\<bar> = Inr (session, s2)"
            and r: "checkDelayedLoop E now
                      (fire (SessionSendPrepared (sessionRef session) request 0) s2) = Inr s'"
            by (auto simp: checkDelayedLoop.simps [of E now s] split: sum.splits)
          let ?send = "SessionSendPrepared (sessionRef session) request 0"
          let ?s3 = "fire ?send s2"
          have f: "requestFrame ?s1 s2"
            and e: "events s2 = events ?s1
                    \<or> events s2 = events ?s1 @ [SessionStart (sessionRef session)]"
            using getSession_normal [OF n1 g] by simp_all
          have m: "m_mode ?s3 = Normal" "m_requestMap ?s3 = m_requestMap s"
            "m_requestsByDc ?s3 = m_requestsByDc s" "m_delayedRequests ?s3 = rest"
            using f n1 by (simp_all add: requestFrame_def sendFrame_def fire_def)
          from "1.IH"(3) [OF Cons True refl refl q Some g refl m(1) r]
          obtain new where
            a: "m_mode s' = Normal" "m_requestMap s' = m_requestMap s"
              "m_requestsByDc s' = m_requestsByDc s"
              "events s' = events ?s3 @ new"
              "sentPrepared new = dueRequests (m_requestsByDc s) (m_requestMap s) now rest"
            unfolding m by blast
          have d: "dueRequests (m_requestsByDc s) (m_requestMap s) now (m_delayedRequests s)
                   = request # dueRequests (m_requestsByDc s) (m_requestMap s) now rest"
            using Cons True q Some by (simp add: dueRequests_def queryRequestByDc_def)
          obtain pre where
            p: "events ?s3 = events s @ pre @ [?send]" "sentPrepared pre = []"
            using e by (auto simp: fire_def sentPrepared_def)
          have "events s' = events s @ (pre @ ?send # new)"
            using a(4) p(1) by simp
          moreover have "sentPrepared (pre @ ?send # new)
              = dueRequests (m_requestsByDc s) (m_requestMap s) now (m_delayedRequests s)"
            using a(5) d p(2) by (simp add: sentPrepared_def)
          ultimately show ?thesis
            using a(1-3) by blast
        qed
      qed
    qed
  qed
qed


lemma sorted_dropWhile_filter:
  "sorted (map snd q) \<Longrightarrow>
     dropWhile (\<lambda>e. snd e \<le> (now::int)) q = filter (\<lambda>e. now < snd e) q"
proof (induction q)
  case Nil
  then show ?case by simp
next
  case (Cons e q)
  show ?case
  proof (cases "snd e \<le> now")
    case True
    with Cons show ?thesis by simp
  next
    case False
    then have "\<forall>x \<in> set q. now < snd x" using Cons.prems by fastforce
    then have "filter (\<lambda>e. now < snd e) q = q" by (simp add: filter_id_conv)
    with False show ?thesis by simp
  qed
qed

lemma checkDelayedRequests_queue:
  assumes "checkDelayedRequests E s = Inr s'"
  shows "m_delayedRequests s'
           = dropWhile (\<lambda>e. snd e \<le> clock s (clockReads s)) (m_delayedRequests s)"
    and "m_requestsDelays s' = m_requestsDelays s"
proof -
  let ?s0 = "s\<lparr>clockReads := Suc (clockReads s)\<rparr>"
  obtain s1 where l: "checkDelayedLoop E (clock s (clockReads s)) ?s0 = Inr s1"
    and s': "s' = s1 \<or> (\<exists>e. s' = fire e s1)"
    using assms
    by (auto simp: checkDelayedRequests_def crl_now_def split: sum.splits list.splits)
  from checkDelayedLoop_queue [OF l] s'
  show "m_delayedRequests s'
           = dropWhile (\<lambda>e. snd e \<le> clock s (clockReads s)) (m_delayedRequests s)"
    and "m_requestsDelays s' = m_requestsDelays s"
    by (auto simp: fire_def)
qed

lemma checkDelayedRequests_normal:
  assumes "m_mode s = Normal" "checkDelayedRequests E s = Inr s'"
  shows "\<exists>new. events s' = events s @ new
           \<and> sentPrepared new = dueRequests (m_requestsByDc s) (m_requestMap s)
                                  (clock s (clockReads s)) (m_delayedRequests s)"
proof -
  let ?s0 = "s\<lparr>clockReads := Suc (clockReads s)\<rparr>"
  obtain s1 where l: "checkDelayedLoop E (clock s (clockReads s)) ?s0 = Inr s1"
    and s': "s' = s1 \<or> (\<exists>ms. s' = fire (TimerCallOnce ms) s1)"
    using assms(2)
    by (auto simp: checkDelayedRequests_def crl_now_def split: sum.splits list.splits)
  have "m_mode ?s0 = Normal" using assms(1) by simp
  from checkDelayedLoop_normal [OF this l] obtain new where
    n: "events s1 = events s @ new"
      "sentPrepared new = dueRequests (m_requestsByDc s) (m_requestMap s)
                            (clock s (clockReads s)) (m_delayedRequests s)"
    by auto
  from s' show ?thesis
  proof
    assume "s' = s1"
    with n show ?thesis by blast
  next
    assume "\<exists>ms. s' = fire (TimerCallOnce ms) s1"
    then obtain ms where "s' = fire (TimerCallOnce ms) s1" ..
    then have "events s' = events s @ (new @ [TimerCallOnce ms])"
      using n(1) by (simp add: fire_def)
    moreover have "sentPrepared (new @ [TimerCallOnce ms])
        = dueRequests (m_requestsByDc s) (m_requestMap s)
            (clock s (clockReads s)) (m_delayedRequests s)"
      using n(2) by (simp add: sentPrepared_def)
    ultimately show ?thesis by blast
  qed
qed

lemma isDigit_not_LF: "isDigit c \<Longrightarrow> c \<noteq> CHR 0x0A"
  by (auto simp: isDigit_def)

lemma flood_string:
  assumes "digits \<noteq> []" "list_all isDigit digits"
  shows "migrateMatch (''FLOOD_WAIT_'' @ digits) = None"
    and "floodMatch (''FLOOD_WAIT_'' @ digits) = Some digits"
proof -
  have "isDigit (last digits)"
    using assms by (simp add: list_all_iff)
  then have l: "last digits \<noteq> CHR 0x0A" by (rule isDigit_not_LF)
  show "floodMatch (''FLOOD_WAIT_'' @ digits) = Some digits"
    using assms l by (simp add: floodMatch_def capturedDigits_def)
  show "migrateMatch (''FLOOD_WAIT_'' @ digits) = None"
    by (simp add: migrateMatch_def capturedDigits_def)
qed

lemma digitValue_range: "isDigit c \<Longrightarrow> 0 \<le> digitValue c \<and> digitValue c \<le> 9"
  by (auto simp: isDigit_def digitValue_def)

lemma foldl_digits_nonneg:
  "0 \<le> a \<Longrightarrow> list_all isDigit digits
     \<Longrightarrow> 0 \<le> foldl (\<lambda>a c. 10 * a + digitValue c) a digits"
proof (induction digits arbitrary: a)
  case Nil
  then show ?case by simp
next
  case (Cons c digits)
  have "0 \<le> 10 * a + digitValue c"
    using Cons.prems digitValue_range [of c] by simp
  from Cons.IH [OF this] Cons.prems(2) show ?case by simp
qed

lemma toInt_nonneg: "list_all isDigit digits \<Longrightarrow> 0 \<le> toInt digits"
  using foldl_digits_nonneg [of 0 digits] by (simp add: toInt_def Let_def)

lemma onErrorDefault_flood:
  assumes "requestId \<noteq> 0" "digits \<noteq> []" "list_all isDigit digits"
    "toInt digits * 1000 \<le> kIntMax" "errType error = ''FLOOD_WAIT_'' @ digits"
    "0 \<le> errCode error" "errCode error < 500"
  shows "onErrorDefault E s requestId error =
     (case enqueueDelayed requestId (clock s (clockReads s) + toInt digits * 1000 + 10)
             (m_delayedRequests s) of
        None \<Rightarrow> Inr (True, s\<lparr>clockReads := Suc (clockReads s)\<rparr>)
      | Some q' \<Rightarrow>
          (case checkDelayedRequests E
                  (s\<lparr>clockReads := Suc (clockReads s), m_delayedRequests := q'\<rparr>) of
             Inl f \<Rightarrow> Inl f
           | Inr s' \<Rightarrow> Inr (True, s')))"
proof -
  have m: "migrateMatch (errType error) = None"
    and f: "floodMatch (errType error) = Some digits"
    using flood_string [OF assms(2,3)] assms(5) by simp_all
  have c: "\<not> (errCode error < 0 \<or> errCode error \<ge> 500)"
    using assms(6,7) by simp
  have o: "\<not> (toInt digits * 1000 > kIntMax \<or> toInt digits * 1000 < - kIntMax - 1)"
    using toInt_nonneg [OF assms(3)] assms(4) by (simp add: kIntMax_def)
  have "onErrorDefault E s requestId error
      = onErrorDefault_delay E s requestId (errCode error) (Some digits)"
    using c by (simp add: onErrorDefault_def Let_def m f)
  also have "\<dots> = (case enqueueDelayed requestId (clock s (clockReads s) + toInt digits * 1000 + 10)
             (m_delayedRequests s) of
        None \<Rightarrow> Inr (True, s\<lparr>clockReads := Suc (clockReads s)\<rparr>)
      | Some q' \<Rightarrow>
          (case checkDelayedRequests E
                  (s\<lparr>clockReads := Suc (clockReads s), m_delayedRequests := q'\<rparr>) of
             Inl f \<Rightarrow> Inl f
           | Inr s' \<Rightarrow> Inr (True, s')))"
    using c o assms(1) by (simp add: onErrorDefault_delay_def crl_now_def Let_def)
  finally show ?thesis .
qed


text \<open>
  Claim C4, as the code has it. The scan puts the entry \<open>(requestId, sendAt)\<close> behind
  every leading entry that is due at \<open>sendAt\<close> or before, that is before the first entry
  due later than \<open>sendAt\<close>; when one of those leading entries, or that first later
  entry, is of the same request, nothing is added. For \<^verbatim>\<open>FLOOD_WAIT_S\<close> with a code
  from 0 to 499 and \<open>S * 1000\<close> within \<^verbatim>\<open>int\<close>, the time is \<open>now + S * 1000 + 10\<close>, and
  the call is handled. \<^verbatim>\<open>checkDelayedRequests\<close> removes the leading entries that are
  due at \<open>now\<close>; on a queue in the order of the due times these are exactly the entries
  due at \<open>now\<close> or before, and in normal mode their stored requests are sent again in
  that order.
\<close>

theorem C4_delayed_scheduler:
  "enqueueDelayed requestId sendAt q =
     (if requestId \<in> fst ` set (takeWhile (\<lambda>e. snd e \<le> sendAt) q)
         \<or> (case dropWhile (\<lambda>e. snd e \<le> sendAt) q of
               [] \<Rightarrow> False | e # _ \<Rightarrow> fst e = requestId)
      then None
      else Some (takeWhile (\<lambda>e. snd e \<le> sendAt) q @ (requestId, sendAt)
                  # dropWhile (\<lambda>e. snd e \<le> sendAt) q))
   \<and> (requestId \<noteq> 0 \<and> digits \<noteq> [] \<and> list_all isDigit digits
        \<and> toInt digits * 1000 \<le> kIntMax \<and> errType error = ''FLOOD_WAIT_'' @ digits
        \<and> 0 \<le> errCode error \<and> errCode error < 500 \<longrightarrow>
       onErrorDefault E s requestId error =
         (case enqueueDelayed requestId (clock s (clockReads s) + toInt digits * 1000 + 10)
                 (m_delayedRequests s) of
            None \<Rightarrow> Inr (True, s\<lparr>clockReads := Suc (clockReads s)\<rparr>)
          | Some q' \<Rightarrow>
              (case checkDelayedRequests E
                      (s\<lparr>clockReads := Suc (clockReads s), m_delayedRequests := q'\<rparr>) of
                 Inl f \<Rightarrow> Inl f
               | Inr s' \<Rightarrow> Inr (True, s'))))
   \<and> (\<forall>s'. checkDelayedRequests E s = Inr s' \<longrightarrow>
         m_delayedRequests s'
           = dropWhile (\<lambda>e. snd e \<le> clock s (clockReads s)) (m_delayedRequests s)
         \<and> (sorted (map snd (m_delayedRequests s)) \<longrightarrow>
              m_delayedRequests s'
                = filter (\<lambda>e. clock s (clockReads s) < snd e) (m_delayedRequests s))
         \<and> (m_mode s = Normal \<longrightarrow>
              (\<exists>new. events s' = events s @ new
                 \<and> sentPrepared new
                     = dueRequests (m_requestsByDc s) (m_requestMap s)
                         (clock s (clockReads s)) (m_delayedRequests s))))"
proof (intro conjI allI impI)
  show "enqueueDelayed requestId sendAt q =
     (if requestId \<in> fst ` set (takeWhile (\<lambda>e. snd e \<le> sendAt) q)
         \<or> (case dropWhile (\<lambda>e. snd e \<le> sendAt) q of
               [] \<Rightarrow> False | e # _ \<Rightarrow> fst e = requestId)
      then None
      else Some (takeWhile (\<lambda>e. snd e \<le> sendAt) q @ (requestId, sendAt)
                  # dropWhile (\<lambda>e. snd e \<le> sendAt) q))"
    by (rule enqueueDelayed_eq)
next
  assume "requestId \<noteq> 0 \<and> digits \<noteq> [] \<and> list_all isDigit digits
        \<and> toInt digits * 1000 \<le> kIntMax \<and> errType error = ''FLOOD_WAIT_'' @ digits
        \<and> 0 \<le> errCode error \<and> errCode error < 500"
  then show "onErrorDefault E s requestId error =
         (case enqueueDelayed requestId (clock s (clockReads s) + toInt digits * 1000 + 10)
                 (m_delayedRequests s) of
            None \<Rightarrow> Inr (True, s\<lparr>clockReads := Suc (clockReads s)\<rparr>)
          | Some q' \<Rightarrow>
              (case checkDelayedRequests E
                      (s\<lparr>clockReads := Suc (clockReads s), m_delayedRequests := q'\<rparr>) of
                 Inl f \<Rightarrow> Inl f
               | Inr s' \<Rightarrow> Inr (True, s')))"
    using onErrorDefault_flood by blast
next
  fix s' assume r: "checkDelayedRequests E s = Inr s'"
  show d: "m_delayedRequests s'
           = dropWhile (\<lambda>e. snd e \<le> clock s (clockReads s)) (m_delayedRequests s)"
    using checkDelayedRequests_queue(1) [OF r] .
  show "m_delayedRequests s'
          = filter (\<lambda>e. clock s (clockReads s) < snd e) (m_delayedRequests s)"
    if "sorted (map snd (m_delayedRequests s))"
    using d sorted_dropWhile_filter [OF that] by simp
  show "\<exists>new. events s' = events s @ new
          \<and> sentPrepared new
              = dueRequests (m_requestsByDc s) (m_requestMap s)
                  (clock s (clockReads s)) (m_delayedRequests s)"
    if "m_mode s = Normal"
    using checkDelayedRequests_normal [OF that r] .
qed

lemma flood3:
  "migrateMatch ''FLOOD_WAIT_3'' = None" "floodMatch ''FLOOD_WAIT_3'' = Some ''3''"
  "toInt ''3'' = 3" "list_all isDigit ''3''"
  by (simp_all add: migrateMatch_def floodMatch_def capturedDigits_def isDigit_def toInt_def
      digitValue_def kIntMax_def Let_def)

theorem C4_delayed_scheduler_witness:
  "enqueueDelayed 2 100 [(1, 50), (3, 100), (4, 150)]
     = Some [(1, 50), (3, 100), (2, 100), (4, 150)]
   \<and> enqueueDelayed 3 120 [(1, 50), (3, 100), (4, 150)] = None
   \<and> (7::int) \<noteq> 0 \<and> ''3'' \<noteq> [] \<and> list_all isDigit ''3'' \<and> toInt ''3'' * 1000 \<le> kIntMax
   \<and> map_sum id (\<lambda>r. (fst r, m_delayedRequests (snd r)))
        (onErrorDefault sampleEnv sampleSent 7 \<lparr>errCode = 420, errType = ''FLOOD_WAIT_3''\<rparr>)
       = Inr (True, [(7, 4010)])
   \<and> sorted (map snd [(7, 900), (8, 2000 :: int)])
   \<and> m_mode (sampleSent\<lparr>m_delayedRequests := [(7, 900), (8, 2000)]\<rparr>) = Normal
   \<and> map_sum id (\<lambda>s'. (m_delayedRequests s', sentPrepared (events s')))
        (checkDelayedRequests sampleEnv (sampleSent\<lparr>m_delayedRequests := [(7, 900), (8, 2000)]\<rparr>))
       = Inr ([(8, 2000)], [sampleRequest])"
proof -
  let ?err = "\<lparr>errCode = 420, errType = ''FLOOD_WAIT_3''\<rparr>"
  let ?S = "sampleSent\<lparr>m_delayedRequests := [(7, 900), (8, 2000)]\<rparr>"
  note inst = C4_delayed_scheduler [of 7 4010 "[]" "''3''" ?err sampleEnv ?S]
  have h: "(7::int) \<noteq> 0 \<and> ''3'' \<noteq> [] \<and> list_all isDigit ''3'' \<and> toInt ''3'' * 1000 \<le> kIntMax
      \<and> errType ?err = ''FLOOD_WAIT_'' @ ''3'' \<and> 0 \<le> errCode ?err \<and> errCode ?err < 500"
    by (simp add: flood3 kIntMax_def isDigit_def)
  have now: "clock sampleSent (clockReads sampleSent) = 1000" "m_delayedRequests sampleSent = []"
    by (simp_all add: sampleSent_def sampleState_def)
  have c: "map_sum id m_delayedRequests
             (checkDelayedRequests sampleEnv
               (sampleSent\<lparr>clockReads := Suc (clockReads sampleSent),
                             m_delayedRequests := [(7, 4010)]\<rparr>)) = Inr [(7, 4010)]"
    by (simp add: checkDelayedRequests_def checkDelayedLoop.simps crl_now_def fire_def
        sampleSent_def sampleState_def)
  from C4_delayed_scheduler [of 7 4010 "[]" "''3''" ?err sampleEnv sampleSent] h
  have "onErrorDefault sampleEnv sampleSent 7 ?err =
         (case enqueueDelayed 7 (clock sampleSent (clockReads sampleSent) + toInt ''3'' * 1000 + 10)
                 (m_delayedRequests sampleSent) of
            None \<Rightarrow> Inr (True, sampleSent\<lparr>clockReads := Suc (clockReads sampleSent)\<rparr>)
          | Some q' \<Rightarrow>
              (case checkDelayedRequests sampleEnv
                      (sampleSent\<lparr>clockReads := Suc (clockReads sampleSent),
                                    m_delayedRequests := q'\<rparr>) of
                 Inl f \<Rightarrow> Inl f
               | Inr s' \<Rightarrow> Inr (True, s')))"
    by blast
  then have f: "map_sum id (\<lambda>r. (fst r, m_delayedRequests (snd r)))
        (onErrorDefault sampleEnv sampleSent 7 ?err) = Inr (True, [(7, 4010)])"
    using c by (simp add: now flood3 split: sum.splits)
  obtain s' where r: "checkDelayedRequests sampleEnv ?S = Inr s'"
    by (simp add: checkDelayedRequests_def checkDelayedLoop.simps crl_now_def fire_def
        sampleSent_def sampleState_def queryRequestByDc_def getSession_def findSession_def
        sampleEnv_def)
  have S: "sorted (map snd (m_delayedRequests ?S))" "m_mode ?S = Normal" "events ?S = []"
    "clock ?S (clockReads ?S) = 1000" "m_delayedRequests ?S = [(7, 900), (8, 2000)]"
    by (simp_all add: sampleSent_def sampleState_def)
  from inst r S(1,2) obtain new where
    d: "m_delayedRequests s' = filter (\<lambda>e. clock ?S (clockReads ?S) < snd e) (m_delayedRequests ?S)"
      "events s' = events ?S @ new"
      "sentPrepared new = dueRequests (m_requestsByDc ?S) (m_requestMap ?S)
                            (clock ?S (clockReads ?S)) (m_delayedRequests ?S)"
    by blast
  have "dueRequests (m_requestsByDc ?S) (m_requestMap ?S) 1000 [(7, 900), (8, 2000)]
      = [sampleRequest]"
    by (simp add: dueRequests_def sampleSent_def)
  with d S(3-5) have "m_delayedRequests s' = [(8, 2000)]" "sentPrepared (events s') = [sampleRequest]"
    by simp_all
  with r have g: "map_sum id (\<lambda>s'. (m_delayedRequests s', sentPrepared (events s')))
        (checkDelayedRequests sampleEnv ?S) = Inr ([(8, 2000)], [sampleRequest])"
    by simp
  show ?thesis
    using f g h S(2) by simp
qed

lemma flood0:
  "migrateMatch ''FLOOD_WAIT_0'' = None" "floodMatch ''FLOOD_WAIT_0'' = Some ''0''"
  "toInt ''0'' = 0"
  "migrateMatch ''FLOOD_WAIT_99999999999'' = None"
  "floodMatch ''FLOOD_WAIT_99999999999'' = Some ''99999999999''"
  "toInt ''99999999999'' = 0"
  by (simp_all add: migrateMatch_def floodMatch_def capturedDigits_def isDigit_def toInt_def
      digitValue_def kIntMax_def Let_def)

theorem C4_delayed_scheduler_counterexample:
  "map_sum id (\<lambda>r. (fst r, m_delayedRequests (snd r)))
     (onErrorDefault sampleEnv (sampleSent\<lparr>m_delayedRequests := [(1, 1010)]\<rparr>) 7
        \<lparr>errCode = 420, errType = ''FLOOD_WAIT_0''\<rparr>)
     = Inr (True, [(1, 1010), (7, 1010)])
   \<and> map_sum id (\<lambda>r. (fst r, m_delayedRequests (snd r)))
     (onErrorDefault sampleEnv sampleSent 7
        \<lparr>errCode = 420, errType = ''FLOOD_WAIT_99999999999''\<rparr>)
     = Inr (True, [(7, 1010)])"
  by (simp add: onErrorDefault_def onErrorDefault_delay_def flood0
      checkDelayedRequests_def checkDelayedLoop.simps crl_now_def fire_def kIntMax_def
      sampleSent_def sampleState_def Let_def)

subsection \<open>The backoff of server errors\<close>

lemma onErrorDefault_transient:
  assumes "requestId \<noteq> 0" "migrateMatch (errType error) = None"
    "errCode error < 0 \<or> errCode error \<ge> 500"
    "secs = (case m_requestsDelays s requestId of
               None \<Rightarrow> 1 | Some d \<Rightarrow> if d > 60 then d else d * 2)"
    "- kIntMax - 1 \<le> secs * 1000" "secs * 1000 \<le> kIntMax"
  shows "onErrorDefault E s requestId error =
     (let s1 = s\<lparr>m_requestsDelays := (m_requestsDelays s)(requestId \<mapsto> secs),
                 clockReads := Suc (clockReads s)\<rparr>
      in case enqueueDelayed requestId (clock s (clockReads s) + secs * 1000 + 10)
                (m_delayedRequests s) of
           None \<Rightarrow> Inr (True, s1)
         | Some q \<Rightarrow>
             (case checkDelayedRequests E (s1\<lparr>m_delayedRequests := q\<rparr>) of
                Inl f \<Rightarrow> Inl f
              | Inr s3 \<Rightarrow> Inr (True, s3)))"
proof -
  have "onErrorDefault E s requestId error
      = onErrorDefault_delay E s requestId (errCode error) (floodMatch (errType error))"
    using assms(2,3) by (auto simp: onErrorDefault_def Let_def)
  also have "\<dots> = (let s1 = s\<lparr>m_requestsDelays := (m_requestsDelays s)(requestId \<mapsto> secs),
                 clockReads := Suc (clockReads s)\<rparr>
      in case enqueueDelayed requestId (clock s (clockReads s) + secs * 1000 + 10)
                (m_delayedRequests s) of
           None \<Rightarrow> Inr (True, s1)
         | Some q \<Rightarrow>
             (case checkDelayedRequests E (s1\<lparr>m_delayedRequests := q\<rparr>) of
                Inl f \<Rightarrow> Inl f
              | Inr s3 \<Rightarrow> Inr (True, s3)))"
  proof (cases "m_requestsDelays s requestId")
    case None
    then show ?thesis
      using assms(1,3-6)
      by (simp add: onErrorDefault_delay_def crl_now_def Let_def cong: option.case_cong)
  next
    case (Some d)
    then have i: "(m_requestsDelays s)(requestId \<mapsto> d) = m_requestsDelays s"
      by (simp add: fun_upd_idem)
    show ?thesis
    proof (cases "60 < d")
      case True
      with Some have "secs = d" using assms(4) by simp
      with Some True show ?thesis
        using assms(1,3,5,6) i
        by (simp add: onErrorDefault_delay_def crl_now_def Let_def cong: option.case_cong)
    next
      case False
      with Some have "secs = d * 2" using assms(4) by simp
      with Some False show ?thesis
        using assms(1,3,5,6)
        by (simp add: onErrorDefault_delay_def crl_now_def Let_def cong: option.case_cong)
    qed
  qed
  finally show ?thesis .
qed


lemma backoff_next:
  "(if min ((2::int) ^ k) 64 > 60 then min ((2::int) ^ k) 64 else min (2 ^ k) 64 * 2)
     = min (2 ^ Suc k) 64"
proof (cases "k < 6")
  case True
  then consider "k = 0" | "k = 1" | "k = 2" | "k = 3" | "k = 4" | "k = 5" by linarith
  then show ?thesis by cases simp_all
next
  case False
  then have "(2::int) ^ 6 \<le> 2 ^ k" by (intro power_increasing) simp_all
  then have "(64::int) \<le> 2 ^ k" by simp
  then show ?thesis by simp
qed

lemma onErrorDefault_transient_delay:
  assumes "requestId \<noteq> 0" "migrateMatch (errType error) = None"
    "errCode error < 0 \<or> errCode error \<ge> 500"
    "onErrorDefault E s requestId error = Inr (b, s')"
  shows "b" and "m_requestsDelays s' requestId
     = Some (case m_requestsDelays s requestId of
               None \<Rightarrow> 1 | Some d \<Rightarrow> if d > 60 then d else d * 2)"
proof -
  let ?secs = "case m_requestsDelays s requestId of
               None \<Rightarrow> 1 | Some d \<Rightarrow> if d > 60 then d else d * 2"
  have d: "onErrorDefault E s requestId error
      = onErrorDefault_delay E s requestId (errCode error) (floodMatch (errType error))"
    using assms(2,3) by (auto simp: onErrorDefault_def Let_def)
  have o: "- kIntMax - 1 \<le> ?secs * 1000" "?secs * 1000 \<le> kIntMax"
    using assms(1,3,4) unfolding d
    by (auto simp: onErrorDefault_delay_def Let_def split: option.splits if_splits)
  note e = onErrorDefault_transient [OF assms(1-3) refl o, of E]
  let ?s1 = "s\<lparr>m_requestsDelays := (m_requestsDelays s)(requestId \<mapsto> ?secs),
                 clockReads := Suc (clockReads s)\<rparr>"
  have "b \<and> m_requestsDelays s' requestId = Some ?secs"
  proof (cases "enqueueDelayed requestId (clock s (clockReads s) + ?secs * 1000 + 10)
                (m_delayedRequests s)")
    case None
    with e assms(4) show ?thesis by (auto simp: Let_def)
  next
    case (Some q)
    with e assms(4) have "checkDelayedRequests E (?s1\<lparr>m_delayedRequests := q\<rparr>) = Inr s'" "b"
      by (auto simp: Let_def split: sum.splits)
    with checkDelayedRequests_queue(2) [of E "?s1\<lparr>m_delayedRequests := q\<rparr>" s']
    show ?thesis by simp
  qed
  then show "b" and "m_requestsDelays s' requestId = Some ?secs" by simp_all
qed

lemma repeatError_delay:
  assumes "requestId \<noteq> 0" "migrateMatch (errType error) = None"
    "errCode error < 0 \<or> errCode error \<ge> 500"
  shows "m_requestsDelays s requestId = Some (min (2 ^ k) 64)
     \<Longrightarrow> repeatError E n requestId error s = Inr s'
     \<Longrightarrow> m_requestsDelays s' requestId = Some (min (2 ^ (k + n)) 64)"
proof (induction n arbitrary: s k)
  case 0
  then show ?case by simp
next
  case (Suc n)
  from Suc.prems(2) obtain b s1 where
    o: "onErrorDefault E s requestId error = Inr (b, s1)"
    and r: "repeatError E n requestId error s1 = Inr s'"
    by (auto split: sum.splits)
  have "m_requestsDelays s1 requestId = Some (min (2 ^ Suc k) 64)"
    using onErrorDefault_transient_delay(2) [OF assms o] Suc.prems(1) backoff_next [of k]
    by simp
  from Suc.IH [OF this r] show ?case by simp
qed

lemma repeatError_fresh:
  assumes "requestId \<noteq> 0" "migrateMatch (errType error) = None"
    "errCode error < 0 \<or> errCode error \<ge> 500"
    "m_requestsDelays s requestId = None" "0 < n"
    "repeatError E n requestId error s = Inr s'"
  shows "m_requestsDelays s' requestId = Some (min (2 ^ (n - 1)) 64)"
proof -
  obtain m where n: "n = Suc m" using assms(5) by (cases n) simp_all
  from assms(6) obtain b s1 where
    o: "onErrorDefault E s requestId error = Inr (b, s1)"
    and r: "repeatError E m requestId error s1 = Inr s'"
    unfolding n by (auto split: sum.splits)
  have "m_requestsDelays s1 requestId = Some (min (2 ^ 0) 64)"
    using onErrorDefault_transient_delay(2) [OF assms(1-3) o] assms(4) by simp
  from repeatError_delay [OF assms(1-3) this r] show ?thesis by (simp add: n)
qed


lemma sampleError:
  "migrateMatch ''INTERNAL'' = None" "floodMatch ''INTERNAL'' = None"
  by (simp_all add: migrateMatch_def floodMatch_def capturedDigits_def)

text \<open>
  Claim C1, as the code has it. For an error with a negative code or a code of 500 or
  more (and a type that is no \<^verbatim>\<open>..._MIGRATE_N\<close>), the delay of the request is 1 when it
  has none, the stored delay when that is above 60, and twice the stored delay
  otherwise: from the values 1, 2, 4, ..., 64 it never leaves them, so it stops at 64.
  The request is put into the queue for \<open>now + delay * 1000 + 10\<close> (unless the scan
  meets an entry of the same request), the call is handled, and after \<open>n\<close> such errors
  in a row the delay is the smaller of \<open>2 ^ (n - 1)\<close> and 64.
\<close>

theorem C1_transient_backoff:
  "(requestId \<noteq> 0 \<and> migrateMatch (errType error) = None
      \<and> (errCode error < 0 \<or> errCode error \<ge> 500)
      \<and> (\<forall>d. m_requestsDelays s requestId = Some d \<longrightarrow> d \<in> {1, 2, 4, 8, 16, 32, 64}) \<longrightarrow>
     (let secs = (case m_requestsDelays s requestId of
                    None \<Rightarrow> 1 | Some d \<Rightarrow> if d > 60 then d else d * 2);
          s1 = s\<lparr>m_requestsDelays := (m_requestsDelays s)(requestId \<mapsto> secs),
                 clockReads := Suc (clockReads s)\<rparr>
      in secs \<in> {1, 2, 4, 8, 16, 32, 64}
         \<and> onErrorDefault E s requestId error =
             (case enqueueDelayed requestId (clock s (clockReads s) + secs * 1000 + 10)
                     (m_delayedRequests s) of
                None \<Rightarrow> Inr (True, s1)
              | Some q \<Rightarrow>
                  (case checkDelayedRequests E (s1\<lparr>m_delayedRequests := q\<rparr>) of
                     Inl f \<Rightarrow> Inl f
                   | Inr s3 \<Rightarrow> Inr (True, s3)))
         \<and> (\<forall>b s'. onErrorDefault E s requestId error = Inr (b, s') \<longrightarrow>
               b \<and> m_requestsDelays s' requestId = Some secs)))
   \<and> (\<forall>s'. requestId \<noteq> 0 \<and> migrateMatch (errType error) = None
         \<and> (errCode error < 0 \<or> errCode error \<ge> 500)
         \<and> m_requestsDelays s requestId = None \<and> 0 < n
         \<and> repeatError E n requestId error s = Inr s' \<longrightarrow>
        m_requestsDelays s' requestId = Some (min (2 ^ (n - 1)) 64))"
proof (intro conjI allI impI)
  assume a: "requestId \<noteq> 0 \<and> migrateMatch (errType error) = None
      \<and> (errCode error < 0 \<or> errCode error \<ge> 500)
      \<and> (\<forall>d. m_requestsDelays s requestId = Some d \<longrightarrow> d \<in> {1, 2, 4, 8, 16, 32, 64})"
  define secs where "secs = (case m_requestsDelays s requestId of
                    None \<Rightarrow> 1 | Some d \<Rightarrow> if d > 60 then d else d * 2)"
  have m: "secs \<in> {1, 2, 4, 8, 16, 32, 64}"
    using a unfolding secs_def by (auto split: option.splits)
  then have o: "- kIntMax - 1 \<le> secs * 1000" "secs * 1000 \<le> kIntMax"
    by (auto simp: kIntMax_def)
  from a have t: "requestId \<noteq> 0" "migrateMatch (errType error) = None"
    "errCode error < 0 \<or> errCode error \<ge> 500" by simp_all
  note e = onErrorDefault_transient [OF t secs_def o, of E]
  have r: "\<forall>b s'. onErrorDefault E s requestId error = Inr (b, s') \<longrightarrow>
             b \<and> m_requestsDelays s' requestId = Some secs"
    using onErrorDefault_transient_delay [OF t] unfolding secs_def by blast
  show "let secs = (case m_requestsDelays s requestId of
                    None \<Rightarrow> 1 | Some d \<Rightarrow> if d > 60 then d else d * 2);
          s1 = s\<lparr>m_requestsDelays := (m_requestsDelays s)(requestId \<mapsto> secs),
                 clockReads := Suc (clockReads s)\<rparr>
      in secs \<in> {1, 2, 4, 8, 16, 32, 64}
         \<and> onErrorDefault E s requestId error =
             (case enqueueDelayed requestId (clock s (clockReads s) + secs * 1000 + 10)
                     (m_delayedRequests s) of
                None \<Rightarrow> Inr (True, s1)
              | Some q \<Rightarrow>
                  (case checkDelayedRequests E (s1\<lparr>m_delayedRequests := q\<rparr>) of
                     Inl f \<Rightarrow> Inl f
                   | Inr s3 \<Rightarrow> Inr (True, s3)))
         \<and> (\<forall>b s'. onErrorDefault E s requestId error = Inr (b, s') \<longrightarrow>
               b \<and> m_requestsDelays s' requestId = Some secs)"
    using m e r unfolding secs_def [symmetric] Let_def by blast
next
  fix s'
  assume "requestId \<noteq> 0 \<and> migrateMatch (errType error) = None
         \<and> (errCode error < 0 \<or> errCode error \<ge> 500)
         \<and> m_requestsDelays s requestId = None \<and> 0 < n
         \<and> repeatError E n requestId error s = Inr s'"
  then show "m_requestsDelays s' requestId = Some (min (2 ^ (n - 1)) 64)"
    using repeatError_fresh [of requestId error s n E s'] by blast
qed

lemma sampleRun:
  "map_sum id (\<lambda>s'. m_requestsDelays s' 7)
     (repeatError sampleEnv 6 7 \<lparr>errCode = 500, errType = ''INTERNAL''\<rparr> sampleSent)
     = Inr (Some 32)"
  "map_sum id (\<lambda>s'. ()) 
     (repeatError sampleEnv 8 7 \<lparr>errCode = 500, errType = ''INTERNAL''\<rparr> sampleSent)
     = Inr ()"
  by (simp_all add: eval_nat_numeral onErrorDefault_def onErrorDefault_delay_def sampleError
      checkDelayedRequests_def checkDelayedLoop.simps crl_now_def fire_def kIntMax_def
      sampleSent_def sampleState_def Let_def)

theorem C1_transient_backoff_witness:
  "(7::int) \<noteq> 0 \<and> migrateMatch ''INTERNAL'' = None
   \<and> m_requestsDelays sampleSent 7 = None
   \<and> map_sum id (\<lambda>s'. m_requestsDelays s' 7)
        (repeatError sampleEnv 8 7 \<lparr>errCode = 500, errType = ''INTERNAL''\<rparr> sampleSent)
      = Inr (Some 64)
   \<and> map_sum id (\<lambda>r. (fst r, m_requestsDelays (snd r) 7, m_delayedRequests (snd r)))
        (onErrorDefault sampleEnv (sampleSent\<lparr>m_requestsDelays := [7 \<mapsto> 4]\<rparr>) 7
           \<lparr>errCode = 500, errType = ''INTERNAL''\<rparr>)
      = Inr (True, Some 8, [(7, 9010)])"
proof -
  let ?err = "\<lparr>errCode = 500, errType = ''INTERNAL''\<rparr>"
  let ?S = "sampleSent\<lparr>m_requestsDelays := [7 \<mapsto> 4]\<rparr>"
  obtain s' where r: "repeatError sampleEnv 8 7 ?err sampleSent = Inr s'"
    using sampleRun(2) by (cases "repeatError sampleEnv 8 7 ?err sampleSent") simp_all
  have h: "(7::int) \<noteq> 0 \<and> migrateMatch (errType ?err) = None
         \<and> (errCode ?err < 0 \<or> errCode ?err \<ge> 500)
         \<and> m_requestsDelays sampleSent 7 = None \<and> 0 < (8::nat)"
    by (simp add: sampleError sampleSent_def sampleState_def)
  from C1_transient_backoff [of 7 ?err sampleSent sampleEnv 8] h r
  have "m_requestsDelays s' 7 = Some (min (2 ^ (8 - 1)) 64)" by blast
  then have a: "map_sum id (\<lambda>s'. m_requestsDelays s' 7)
        (repeatError sampleEnv 8 7 ?err sampleSent) = Inr (Some 64)"
    using r by simp
  have g: "(7::int) \<noteq> 0 \<and> migrateMatch (errType ?err) = None
      \<and> (errCode ?err < 0 \<or> errCode ?err \<ge> 500)
      \<and> (\<forall>d. m_requestsDelays ?S 7 = Some d \<longrightarrow> d \<in> {1, 2, 4, 8, 16, 32, 64})"
    by (simp add: sampleError)
  have ev: "map_sum id (\<lambda>r. m_delayedRequests (snd r)) (onErrorDefault sampleEnv ?S 7 ?err)
      = Inr [(7, 9010)]"
    by (simp add: onErrorDefault_def onErrorDefault_delay_def sampleError
      checkDelayedRequests_def checkDelayedLoop.simps crl_now_def fire_def kIntMax_def
      sampleSent_def sampleState_def Let_def)
  then obtain b' s2 where o: "onErrorDefault sampleEnv ?S 7 ?err = Inr (b', s2)"
    and q: "m_delayedRequests s2 = [(7, 9010)]"
    by (cases "onErrorDefault sampleEnv ?S 7 ?err") auto
  have "b' \<and> m_requestsDelays s2 7 = Some 8"
    using C1_transient_backoff [of 7 ?err ?S sampleEnv 1] g o
    by (simp add: Let_def)
  with o q have b: "map_sum id (\<lambda>r. (fst r, m_requestsDelays (snd r) 7, m_delayedRequests (snd r)))
        (onErrorDefault sampleEnv ?S 7 ?err) = Inr (True, Some 8, [(7, 9010)])"
    by simp
  show ?thesis
    using a b h by simp
qed

theorem C1_transient_backoff_counterexample:
  "map_sum id (\<lambda>s'. m_requestsDelays s' 7)
     (repeatError sampleEnv 6 7 \<lparr>errCode = 500, errType = ''INTERNAL''\<rparr> sampleSent)
     = Inr (Some 32)
   \<and> map_sum id (\<lambda>r. (fst r, m_requestsDelays (snd r) 7, m_delayedRequests (snd r)))
        (onErrorDefault sampleEnv (sampleSent\<lparr>m_requestsDelays := [7 \<mapsto> 32]\<rparr>) 7
           \<lparr>errCode = 500, errType = ''INTERNAL''\<rparr>)
      = Inr (True, Some 64, [(7, 65010)])"
  by (simp add: sampleRun(1))
    (simp add: onErrorDefault_def onErrorDefault_delay_def sampleError
      checkDelayedRequests_def checkDelayedLoop.simps crl_now_def fire_def kIntMax_def
      sampleSent_def sampleState_def Let_def)

subsection \<open>Unauthorized requests\<close>














subsection \<open>Send and cancel\<close>

lemma map_of_fm_insert:
  "map_of m k = None \<Longrightarrow> map_of (fm_insert k v m) = (map_of m)(k \<mapsto> v)"
  by (induction m) (auto simp: fun_upd_twist)

lemma sendRequestTo_sessions:
  "m_sessions (sendRequestTo s session requestId request callbacks shiftedDcId msCanWait nl
     afterRequestId) = m_sessions s"
  by (simp add: sendRequestTo_def storeRequest_def registerRequest_def crl_now_def fire_def
      Let_def split: prod.splits)

lemma scheduleKeyDestroy_sessions:
  "scheduleKeyDestroy E s k r = Inr s' \<Longrightarrow> m_sessions s' = m_sessions s"
  by (auto simp: scheduleKeyDestroy_def performKeyDestroy_def sendFromStartSession_def
      sendRequestTo_sessions Let_def split: if_splits prod.splits sum.splits option.splits)

lemma getDcById_sessions:
  "getDcById E s k = (dc, s') \<Longrightarrow>
     m_sessions s' = m_sessions s \<and> nextSessionRef s' = nextSessionRef s"
  by (auto simp: getDcById_def addDc_def findDc_def Let_def split: option.splits if_splits)

lemma startSession_new:
  assumes "findSession s k = None" "startSession E s k = Inr (x, s')"
  shows "map_of (m_sessions s') = (map_of (m_sessions s))(k \<mapsto> x)"
    and "getDcWithShift x = k" and "BareDcId E k \<noteq> 0"
proof -
  obtain dc s1 where d: "getDcById E s k = (dc, s1)" by (cases "getDcById E s k")
  note g = getDcById_sessions [OF d]
  have n: "map_of (m_sessions s1) k = None"
    using assms(1) g by (simp add: findSession_def)
  from assms(2) show "BareDcId E k \<noteq> 0"
    by (auto simp: startSession_def split: if_splits)
  from assms(2) d n have x: "x = \<lparr>sessionRef = nextSessionRef s1, getDcWithShift = k\<rparr>"
    by (auto simp: startSession_def Let_def findSession_def split: if_splits sum.splits)
  then show "getDcWithShift x = k" by simp
  have "m_sessions s' = fm_emplace k x (m_sessions s1)"
    using assms(2) d x
    by (auto simp: startSession_def Let_def fire_def findSession_def
        dest!: scheduleKeyDestroy_sessions split: if_splits sum.splits)
  then show "map_of (m_sessions s') = (map_of (m_sessions s))(k \<mapsto> x)"
    using n g by (simp add: fm_emplace_def map_of_fm_insert)
qed


lemma getSession_target:
  assumes ok: "sessionsOk E s" and g: "getSession E s k = Inr (x, s')" and k: "0 \<le> k"
    and layout: "\<forall>d. 0 \<le> d \<longrightarrow> 0 \<le> BareDcId E d"
  shows "sessionsOk E s'" and "map_of (m_sessions s') (getDcWithShift x) = Some x"
    and "0 < getDcWithShift x" and "BareDcId E (getDcWithShift x) \<noteq> 0"
proof -
  have f: "m_mainSession s' = m_mainSession s"
    using getSession_frame [OF g] by (simp add: sendFrame_def)
  have "sessionsOk E s' \<and> map_of (m_sessions s') (getDcWithShift x) = Some x
      \<and> 0 < getDcWithShift x \<and> BareDcId E (getDcWithShift x) \<noteq> 0"
  proof (cases "k = 0")
    case True
    with g obtain "m_mainSession s = Some x" "s' = s"
      by (auto simp: getSession_def split: option.splits)
    with ok show ?thesis by (auto simp: sessionsOk_def)
  next
    case False
    define k' where "k' = (if BareDcId E k = 0
        then k + BareDcId E (getDcWithShift (the (m_mainSession s))) else k)"
    have pos: "0 < k'"
    proof (cases "BareDcId E k = 0")
      case True
      with g False obtain m where m: "m_mainSession s = Some m"
        by (auto simp: getSession_def split: option.splits)
      with ok have "0 < getDcWithShift m" by (auto simp: sessionsOk_def)
      with layout have "0 \<le> BareDcId E (getDcWithShift m)" by simp
      with True m k False show ?thesis by (simp add: k'_def)
    next
      case False
      with k \<open>k \<noteq> 0\<close> show ?thesis by (simp add: k'_def)
    qed
    from g False have c: "(findSession s k' = Some x \<and> s' = s)
        \<or> (findSession s k' = None \<and> startSession E s k' = Inr (x, s'))"
      by (auto simp: getSession_def k'_def split: if_splits option.splits)
    then show ?thesis
    proof
      assume "findSession s k' = Some x \<and> s' = s"
      with ok show ?thesis by (auto simp: sessionsOk_def findSession_def)
    next
      assume a: "findSession s k' = None \<and> startSession E s k' = Inr (x, s')"
      from a have a1: "findSession s k' = None" and a2: "startSession E s k' = Inr (x, s')"
        by simp_all
      have m: "map_of (m_sessions s') = (map_of (m_sessions s))(k' \<mapsto> x)"
        and d: "getDcWithShift x = k'" and b: "BareDcId E k' \<noteq> 0"
        using startSession_new [OF a1 a2] by simp_all
      have "sessionsOk E s'"
        unfolding sessionsOk_def
      proof (intro conjI allI impI)
        fix j y assume "map_of (m_sessions s') j = Some y"
        then have "(j = k' \<and> y = x) \<or> map_of (m_sessions s) j = Some y"
          unfolding m by (auto split: if_splits)
        then show "getDcWithShift y = j" "0 < j" "BareDcId E j \<noteq> 0"
          using ok d b pos by (auto simp: sessionsOk_def)
      next
        fix m' assume "m_mainSession s' = Some m'"
        then have "m_mainSession s = Some m'" using f by simp
        then have o: "map_of (m_sessions s) (getDcWithShift m') = Some m'"
          using ok by (auto simp: sessionsOk_def)
        then have "getDcWithShift m' \<noteq> k'" using a by (auto simp: findSession_def)
        then show "map_of (m_sessions s') (getDcWithShift m') = Some m'"
          unfolding m using o by simp
      qed
      then show ?thesis using m d b pos by simp
    qed
  qed
  then show "sessionsOk E s'" and "map_of (m_sessions s') (getDcWithShift x) = Some x"
    and "0 < getDcWithShift x" and "BareDcId E (getDcWithShift x) \<noteq> 0"
    by simp_all
qed

lemma getSession_found:
  assumes "map_of (m_sessions s) k = Some x" "k \<noteq> 0" "BareDcId E k \<noteq> 0"
  shows "getSession E s k = Inr (x, s)"
  using assms by (simp add: getSession_def findSession_def)


lemma sendFromStartSession_maps:
  assumes "sendFromStartSession E s q cb k r = Inr s'"
    "i \<noteq> fst (GetNextRequestId (GlobalAtomicRequestId s))"
  shows "m_requestMap s' i = m_requestMap s i" and "m_parserMap s' i = m_parserMap s i"
    and "m_requestsByDc s' i = m_requestsByDc s i"
  using assms
  by (auto simp: sendFromStartSession_def sendRequestTo_def storeRequest_def
      registerRequest_def crl_now_def fire_def emplaceMap_def Let_def
      split: prod.splits if_splits option.splits)

lemma getDcById_maps:
  "getDcById E s k = (dc, s') \<Longrightarrow>
     m_requestMap s' = m_requestMap s \<and> m_parserMap s' = m_parserMap s
     \<and> m_requestsByDc s' = m_requestsByDc s
     \<and> GlobalAtomicRequestId s' = GlobalAtomicRequestId s"
  using getDcById_requestFrame [of E s k dc s'] by (simp add: requestFrame_def)

lemma startSession_maps:
  assumes "startSession E s k = Inr (x, s')"
    "i \<noteq> fst (GetNextRequestId (GlobalAtomicRequestId s))"
  shows "m_requestMap s' i = m_requestMap s i \<and> m_parserMap s' i = m_parserMap s i
    \<and> m_requestsByDc s' i = m_requestsByDc s i"
proof -
  obtain dc s1 where d: "getDcById E s k = (dc, s1)" by (cases "getDcById E s k")
  note g = getDcById_maps [OF d]
  let ?r = "case findSession (s1\<lparr>nextSessionRef := Suc (nextSessionRef s1)\<rparr>) k of
              Some existing \<Rightarrow> existing
            | None \<Rightarrow> \<lparr>sessionRef = nextSessionRef s1, getDcWithShift = k\<rparr>"
  let ?s4 = "fire (SessionStart (sessionRef ?r))
      (s1\<lparr>nextSessionRef := Suc (nextSessionRef s1),
          m_sessions := fm_emplace k \<lparr>sessionRef = nextSessionRef s1, getDcWithShift = k\<rparr>
                          (m_sessions s1)\<rparr>)"
  have s4: "m_requestMap ?s4 = m_requestMap s" "m_parserMap ?s4 = m_parserMap s"
    "m_requestsByDc ?s4 = m_requestsByDc s"
    "GlobalAtomicRequestId ?s4 = GlobalAtomicRequestId s"
    using g by (simp_all add: fire_def)
  from assms(1) d have "s' = ?s4 \<or> (\<exists>q cb r. sendFromStartSession E ?s4 q cb k r = Inr s')"
    by (auto simp: startSession_def Let_def scheduleKeyDestroy_def performKeyDestroy_def
        split: if_splits sum.splits)
  then show ?thesis
  proof
    assume "s' = ?s4"
    then show ?thesis using s4 by simp
  next
    assume "\<exists>q cb r. sendFromStartSession E ?s4 q cb k r = Inr s'"
    then obtain q cb r where "sendFromStartSession E ?s4 q cb k r = Inr s'" by blast
    from sendFromStartSession_maps [OF this, of i] assms(2) s4 show ?thesis by simp
  qed
qed

lemma getSession_maps:
  assumes "getSession E s k = Inr (x, s')"
    "i \<noteq> fst (GetNextRequestId (GlobalAtomicRequestId s))"
  shows "m_requestMap s' i = m_requestMap s i" and "m_parserMap s' i = m_parserMap s i"
    and "m_requestsByDc s' i = m_requestsByDc s i"
proof -
  from assms(1) have "s' = s \<or> (\<exists>k'. startSession E s k' = Inr (x, s'))"
    by (auto simp: getSession_def split: if_splits option.splits sum.splits)
  then have "m_requestMap s' i = m_requestMap s i \<and> m_parserMap s' i = m_parserMap s i
    \<and> m_requestsByDc s' i = m_requestsByDc s i"
    using startSession_maps [OF _ assms(2)] by blast
  then show "m_requestMap s' i = m_requestMap s i" and "m_parserMap s' i = m_parserMap s i"
    and "m_requestsByDc s' i = m_requestsByDc s i" by simp_all
qed

lemma sendRequestTo_fresh:
  assumes "m_requestMap s requestId = None"
  shows "\<exists>request.
     m_requestMap (sendRequestTo s session requestId (newRequest payload) callbacks shiftedDcId
        msCanWait nl afterRequestId) requestId = Some request
     \<and> rq_buffer request = payload \<and> rq_requestId request = requestId
     \<and> events (sendRequestTo s session requestId (newRequest payload) callbacks shiftedDcId
          msCanWait nl afterRequestId)
         = events s @ [SessionSendPrepared (sessionRef session) request msCanWait]"
  using assms
  by (simp add: sendRequestTo_def storeRequest_def registerRequest_def crl_now_def fire_def
      newRequest_def emplaceMap_def Let_def)

lemma sendRequestTo_routing:
  "m_requestsByDc (sendRequestTo s session requestId request callbacks shiftedDcId
        msCanWait nl afterRequestId) requestId
     = Some (if shiftedDcId = 0 then - getDcWithShift session else getDcWithShift session)"
  by (simp add: sendRequestTo_def storeRequest_def registerRequest_def crl_now_def fire_def
      Let_def)

lemma sendRequestTo_ok:
  "sessionsOk E s \<Longrightarrow>
     sessionsOk E (sendRequestTo s session requestId request callbacks shiftedDcId msCanWait
        nl afterRequestId)"
  using sendRequestTo_frame [of s session requestId request callbacks shiftedDcId msCanWait
      nl afterRequestId]
  by (simp add: sessionsOk_def sendRequestTo_sessions sendFrame_def)


lemma cancel_routed:
  assumes "requestId \<noteq> 0" "m_requestsByDc s requestId = Some d"
    "map_of (m_sessions s) \<bar>d\<bar> = Some x" "d \<noteq> 0" "BareDcId E \<bar>d\<bar> \<noteq> 0"
    "m_requestMap s requestId = Some request" "msgIdAt4 (rq_buffer request) = Some msgId"
  shows "cancel E s requestId
     = Inr (s\<lparr>m_requestsDelays := (m_requestsDelays s)(requestId := None),
              m_requestMap := (m_requestMap s)(requestId := None),
              m_requestsByDc := (m_requestsByDc s)(requestId := None),
              events := events s @ [SessionCancel (sessionRef x) requestId msgId],
              m_parserMap := (m_parserMap s)(requestId := None)\<rparr>)"
proof -
  let ?s2 = "unregisterRequest (s\<lparr>m_requestMap := (m_requestMap s)(requestId := None)\<rparr>)
               requestId"
  have "map_of (m_sessions ?s2) \<bar>d\<bar> = Some x"
    using assms(3) by (simp add: unregisterRequest_def)
  from getSession_found [OF this _ assms(5)] assms(4)
  have g: "getSession E ?s2 \<bar>d\<bar> = Inr (x, ?s2)" by simp
  show ?thesis
    using assms(1,2,6,7)
    by (simp add: cancel_def queryRequestByDc_def Let_def g)
      (simp add: unregisterRequest_def clearCallbacks_def fire_def)
qed

lemma cancel_unrouted:
  assumes "m_requestsByDc s requestId = None" "m_requestMap s requestId = None"
    "m_parserMap s requestId = None" "m_requestsDelays s requestId = None"
  shows "cancel E s requestId = Inr s"
proof -
  have "(m_requestsByDc s)(requestId := None) = m_requestsByDc s"
    "(m_requestMap s)(requestId := None) = m_requestMap s"
    "(m_parserMap s)(requestId := None) = m_parserMap s"
    "(m_requestsDelays s)(requestId := None) = m_requestsDelays s"
    using assms by (simp_all add: fun_upd_idem)
  then show ?thesis
    using assms
    by (simp add: cancel_def queryRequestByDc_def Let_def unregisterRequest_def
        clearCallbacks_def)
qed


lemma word_bytes:
  "(w::int) mod 4294967296
     = w mod 256 + 256 * (w div 256 mod 256 + 256 * (w div 65536 mod 256
         + 256 * (w div 16777216 mod 256)))"
proof -
  have d: "w div 256 div 256 = w div 65536" "w div 65536 div 256 = w div 16777216"
    using zdiv_zmult2_eq [of 256 w 256] zdiv_zmult2_eq [of 256 w 65536] by simp_all
  have 1: "w mod 4294967296 = 256 * (w div 256 mod 16777216) + w mod 256"
    using zmod_zmult2_eq [of 16777216 w 256] by simp
  have 2: "w div 256 mod 16777216 = 256 * (w div 65536 mod 65536) + w div 256 mod 256"
    using zmod_zmult2_eq [of 65536 "w div 256" 256] d by simp
  have 3: "w div 65536 mod 65536 = 256 * (w div 16777216 mod 256) + w div 65536 mod 256"
    using zmod_zmult2_eq [of 256 "w div 65536" 256] d by simp
  show ?thesis unfolding 1 2 3 by simp
qed

lemma payloadBytes_append: "payloadBytes (xs @ ys) = payloadBytes xs @ payloadBytes ys"
  by (simp add: payloadBytes_def)

lemma length_payloadBytes: "length (payloadBytes xs) = 4 * length xs"
  by (induction xs) (simp_all add: payloadBytes_def)

lemma msgIdAt4_Some:
  assumes "6 \<le> length buf"
  shows "msgIdAt4 buf = Some (buf ! 4 mod 4294967296 + 4294967296 * (buf ! 5 mod 4294967296))"
proof -
  have "drop 4 buf = buf ! 4 # drop 5 buf" "drop 5 buf = buf ! 5 # drop 6 buf"
    using assms Cons_nth_drop_Suc [of 4 buf] Cons_nth_drop_Suc [of 5 buf] by simp_all
  then show ?thesis by (simp add: msgIdAt4_def)
qed

lemma msgIdAt4_bytes:
  assumes "msgIdAt4 buf = Some v"
  shows "v = bytesValue (take 8 (drop 16 (payloadBytes buf)))"
proof -
  from assms obtain a b rest where d: "drop 4 buf = a # b # rest"
    and v: "v = a mod 4294967296 + 4294967296 * (b mod 4294967296)"
    by (auto simp: msgIdAt4_def split: list.splits)
  have l: "length (take 4 buf) = 4"
    using d by (cases "length buf < 4") auto
  have "buf = take 4 buf @ a # b # rest"
    using d append_take_drop_id [of 4 buf] by simp
  then have "payloadBytes buf = payloadBytes (take 4 buf) @ payloadBytes (a # b # rest)"
    using payloadBytes_append by metis
  then have "drop 16 (payloadBytes buf) = payloadBytes (a # b # rest)"
    using length_payloadBytes [of "take 4 buf"] l by simp
  then have "bytesValue (take 8 (drop 16 (payloadBytes buf)))
      = a mod 256 + 256 * (a div 256 mod 256 + 256 * (a div 65536 mod 256
         + 256 * (a div 16777216 mod 256 + 256 * (b mod 256 + 256 * (b div 256 mod 256
         + 256 * (b div 65536 mod 256 + 256 * (b div 16777216 mod 256)))))))"
    by (simp add: payloadBytes_def bytesValue_def)
  also have "\<dots> = a mod 4294967296 + 4294967296 * (b mod 4294967296)"
    unfolding word_bytes [of a] word_bytes [of b] by (simp add: algebra_simps)
  finally show ?thesis using v by simp
qed


text \<open>
  Claim C5. Let \<^verbatim>\<open>send\<close> return a request id, in a state whose session registry is as
  \<^verbatim>\<open>startSession\<close> builds it, for a shifted DC id that is not negative and an id
  that is not in use. Then the request is stored with the payload sent, and
  \<^verbatim>\<open>cancel\<close> of the id right afterwards returns, leaves no routing, no payload and
  no handlers for the id (and touches no other id), and calls \<^verbatim>\<open>cancel(id, msgId)\<close> of
  the session that was handed the payload; nothing else is called, so no handler
  is. For a payload of at least six 32-bit words, the message id is the unsigned
  64-bit value held in the words 4 and 5 of that payload, the low half in word 4,
  which is the value of its bytes 16..24. A second \<^verbatim>\<open>cancel\<close> of the id changes
  nothing.
\<close>

theorem C5_send_cancel:
  "sessionsOk E s \<and> (\<forall>d. 0 \<le> d \<longrightarrow> 0 \<le> BareDcId E d)
   \<and> 0 \<le> GlobalAtomicRequestId s \<and> GlobalAtomicRequestId s < kIntMax div 2
   \<and> m_requestMap s (GlobalAtomicRequestId s + 1) = None \<and> 0 \<le> shiftedDcId
   \<and> 6 \<le> length payload
   \<and> send E s payload callbacks shiftedDcId msCanWait nl afterRequestId = Inr (requestId, s1)
   \<longrightarrow>
     (\<exists>(session::Session) request s2.
        0 < requestId
        \<and> m_requestMap s1 requestId = Some request \<and> rq_buffer request = payload
        \<and> m_requestsByDc s1 requestId
            = Some (if shiftedDcId = 0 then - getDcWithShift session
                    else getDcWithShift session)
        \<and> events s1 \<noteq> []
        \<and> last (events s1) = SessionSendPrepared (sessionRef session) request msCanWait
        \<and> cancel E s1 requestId = Inr s2
        \<and> m_requestsByDc s2 requestId = None \<and> m_requestMap s2 requestId = None
        \<and> m_parserMap s2 requestId = None \<and> \<not> hasCallbacks s2 requestId
        \<and> events s2
            = events s1
              @ [SessionCancel (sessionRef session) requestId
                   (payload ! 4 mod 4294967296 + 4294967296 * (payload ! 5 mod 4294967296))]
        \<and> payload ! 4 mod 4294967296 + 4294967296 * (payload ! 5 mod 4294967296)
            = bytesValue (take 8 (drop 16 (payloadBytes payload)))
        \<and> (\<forall>i. i \<noteq> requestId \<longrightarrow>
              m_requestsByDc s2 i = m_requestsByDc s1 i
              \<and> m_requestMap s2 i = m_requestMap s1 i
              \<and> m_parserMap s2 i = m_parserMap s1 i)
        \<and> cancel E s2 requestId = Inr s2)"
proof (intro impI)
  assume a: "sessionsOk E s \<and> (\<forall>d. 0 \<le> d \<longrightarrow> 0 \<le> BareDcId E d)
   \<and> 0 \<le> GlobalAtomicRequestId s \<and> GlobalAtomicRequestId s < kIntMax div 2
   \<and> m_requestMap s (GlobalAtomicRequestId s + 1) = None \<and> 0 \<le> shiftedDcId
   \<and> 6 \<le> length payload
   \<and> send E s payload callbacks shiftedDcId msCanWait nl afterRequestId = Inr (requestId, s1)"
  let ?c = "GlobalAtomicRequestId s"
  let ?s0 = "s\<lparr>GlobalAtomicRequestId := snd (GetNextRequestId ?c)\<rparr>"
  have id: "fst (GetNextRequestId ?c) = ?c + 1"
    and c1: "snd (GetNextRequestId ?c) = (if ?c + 1 = kIntMax div 2 then 0 else ?c + 1)"
    using GetNextRequestId_step [of ?c] a by simp_all
  from a obtain session s' where
    r: "requestId = ?c + 1"
    and g: "getSession E ?s0 shiftedDcId = Inr (session, s')"
    and s1: "s1 = sendRequestTo s' session requestId (newRequest payload) callbacks
                    shiftedDcId msCanWait nl afterRequestId"
    using id by (auto simp: send_def sendRequest_def split: prod.splits sum.splits)
  have pos: "0 < requestId" using r a by simp
  have ok0: "sessionsOk E ?s0" using a by (simp add: sessionsOk_def)
  from a have layout: "\<forall>d. 0 \<le> d \<longrightarrow> 0 \<le> BareDcId E d" and k: "0 \<le> shiftedDcId"
    and len: "6 \<le> length payload"
    by simp_all
  let ?m = "payload ! 4 mod 4294967296 + 4294967296 * (payload ! 5 mod 4294967296)"
  have mi: "msgIdAt4 payload = Some ?m" using len by (rule msgIdAt4_Some)
  have bv: "?m = bytesValue (take 8 (drop 16 (payloadBytes payload)))"
    using mi by (rule msgIdAt4_bytes)
  note t = getSession_target [OF ok0 g k layout]
  have "requestId \<noteq> fst (GetNextRequestId (GlobalAtomicRequestId ?s0))"
    using r c1 GetNextRequestId_step(1) [of "snd (GetNextRequestId ?c)"] a
    by (auto simp: kIntMax_def split: if_splits)
  from getSession_maps(1) [OF g this] a r have fresh: "m_requestMap s' requestId = None"
    by simp
  from sendRequestTo_fresh [OF fresh, of session payload callbacks shiftedDcId msCanWait nl
      afterRequestId]
  obtain request where
    q: "m_requestMap s1 requestId = Some request" "rq_buffer request = payload"
      "events s1 = events s' @ [SessionSendPrepared (sessionRef session) request msCanWait]"
    unfolding s1 by blast
  let ?d = "if shiftedDcId = 0 then - getDcWithShift session else getDcWithShift session"
  have ro: "m_requestsByDc s1 requestId = Some ?d"
    unfolding s1 by (rule sendRequestTo_routing)
  have ab: "\<bar>?d\<bar> = getDcWithShift session" "?d \<noteq> 0"
    using t(3) by simp_all
  have se: "map_of (m_sessions s1) \<bar>?d\<bar> = Some session"
    unfolding ab(1) s1 sendRequestTo_sessions by (rule t(2))
  have b: "BareDcId E \<bar>?d\<bar> \<noteq> 0" unfolding ab(1) by (rule t(4))
  let ?s2 = "s1\<lparr>m_requestsDelays := (m_requestsDelays s1)(requestId := None),
              m_requestMap := (m_requestMap s1)(requestId := None),
              m_requestsByDc := (m_requestsByDc s1)(requestId := None),
              events := events s1 @ [SessionCancel (sessionRef session) requestId ?m],
              m_parserMap := (m_parserMap s1)(requestId := None)\<rparr>"
  have ca: "cancel E s1 requestId = Inr ?s2"
    using cancel_routed [OF _ ro se ab(2) b q(1), of ?m] mi q(2) pos by simp
  have again: "cancel E ?s2 requestId = Inr ?s2"
    by (rule cancel_unrouted) simp_all
  show "\<exists>(session::Session) request s2.
        0 < requestId
        \<and> m_requestMap s1 requestId = Some request \<and> rq_buffer request = payload
        \<and> m_requestsByDc s1 requestId
            = Some (if shiftedDcId = 0 then - getDcWithShift session
                    else getDcWithShift session)
        \<and> events s1 \<noteq> []
        \<and> last (events s1) = SessionSendPrepared (sessionRef session) request msCanWait
        \<and> cancel E s1 requestId = Inr s2
        \<and> m_requestsByDc s2 requestId = None \<and> m_requestMap s2 requestId = None
        \<and> m_parserMap s2 requestId = None \<and> \<not> hasCallbacks s2 requestId
        \<and> events s2
            = events s1
              @ [SessionCancel (sessionRef session) requestId
                   (payload ! 4 mod 4294967296 + 4294967296 * (payload ! 5 mod 4294967296))]
        \<and> payload ! 4 mod 4294967296 + 4294967296 * (payload ! 5 mod 4294967296)
            = bytesValue (take 8 (drop 16 (payloadBytes payload)))
        \<and> (\<forall>i. i \<noteq> requestId \<longrightarrow>
              m_requestsByDc s2 i = m_requestsByDc s1 i
              \<and> m_requestMap s2 i = m_requestMap s1 i
              \<and> m_parserMap s2 i = m_parserMap s1 i)
        \<and> cancel E s2 requestId = Inr s2"
    apply (rule_tac x = session in exI)
    apply (rule_tac x = request in exI)
    apply (rule_tac x = "?s2" in exI)
    using pos q ro ca again bv apply (simp add: hasCallbacks_def)
    done
qed


lemma sampleEnv_bare_nonneg: "\<forall>d. 0 \<le> d \<longrightarrow> 0 \<le> BareDcId sampleEnv d"
  by (simp add: sampleEnv_def sgn_if)

lemma sampleState_ok: "sessionsOk sampleEnv sampleState"
  by (simp add: sessionsOk_def sampleState_def sampleEnv_def)

theorem C5_send_cancel_witness:
  "sessionsOk sampleEnv sampleState
   \<and> 0 \<le> GlobalAtomicRequestId sampleState
   \<and> GlobalAtomicRequestId sampleState < kIntMax div 2
   \<and> m_requestMap sampleState (GlobalAtomicRequestId sampleState + 1) = None
   \<and> specMsgId [0, 7, 9, 0, - 1, 22] = 38654705671
   \<and> map_sum id fst
        (send sampleEnv sampleState [0, 7, 9, 0, - 1, 22]
           \<lparr>onDone = Some (UserCallback 0), onFail = Some (UserCallback 1)\<rparr> 0 0 True 0)
      = Inr 1
   \<and> map_sum id (\<lambda>s2. (m_requestsByDc s2 1, m_requestMap s2 1, hasCallbacks s2 1,
                        last (events s2)))
        (case send sampleEnv sampleState [0, 7, 9, 0, - 1, 22]
                \<lparr>onDone = Some (UserCallback 0), onFail = Some (UserCallback 1)\<rparr> 0 0 True 0 of
           Inl f \<Rightarrow> Inl f
         | Inr (requestId, s1) \<Rightarrow> cancel sampleEnv s1 requestId)
      = Inr (None, None, False, SessionCancel 0 1 98784247807)"
proof -
  let ?cb = "\<lparr>onDone = Some (UserCallback 0), onFail = Some (UserCallback 1)\<rparr>"
  let ?send = "send sampleEnv sampleState [0, 7, 9, 0, - 1, 22] ?cb 0 0 True 0"
  have e: "map_sum id (\<lambda>r. (fst r, map (\<lambda>e. case e of SessionSendPrepared n _ _ \<Rightarrow> n | _ \<Rightarrow> 99)
                                        (events (snd r)))) ?send = Inr (1, [0])"
    by (simp add: send_def sendRequest_def getSession_def sendRequestTo_def storeRequest_def
        registerRequest_def crl_now_def fire_def GetNextRequestId_def wrapInt32_def
        kIntMax_def Let_def sampleState_def sampleEnv_def)
  then obtain s1 where s: "?send = Inr (1, s1)"
    and ev: "map (\<lambda>e. case e of SessionSendPrepared n _ _ \<Rightarrow> n | _ \<Rightarrow> 99) (events s1) = [0]"
    by (cases ?send) auto
  have h: "sessionsOk sampleEnv sampleState \<and> (\<forall>d. 0 \<le> d \<longrightarrow> 0 \<le> BareDcId sampleEnv d)
     \<and> 0 \<le> GlobalAtomicRequestId sampleState
     \<and> GlobalAtomicRequestId sampleState < kIntMax div 2
     \<and> m_requestMap sampleState (GlobalAtomicRequestId sampleState + 1) = None
     \<and> (0::int) \<le> 0 \<and> 6 \<le> length [0, 7, 9, 0, - 1, 22 :: int]"
    using sampleState_ok sampleEnv_bare_nonneg by (simp add: sampleState_def kIntMax_def)
  have sp: "specMsgId [0, 7, 9, 0, - 1, 22] = 38654705671"
    by (simp add: specMsgId_def payloadBytes_def bytesValue_def)
  from C5_send_cancel [of sampleEnv sampleState 0 "[0, 7, 9, 0, - 1, 22]" ?cb 0 True 0 1 s1]
    h s
  obtain session :: Session and request s2 where
    f: "last (events s1) = SessionSendPrepared (sessionRef session) request 0"
      "events s1 \<noteq> []"
      "cancel sampleEnv s1 1 = Inr s2"
      "m_requestsByDc s2 1 = None" "m_requestMap s2 1 = None" "\<not> hasCallbacks s2 1"
      "events s2 = events s1
         @ [SessionCancel (sessionRef session) 1
              ([0, 7, 9, 0, - 1, 22] ! 4 mod 4294967296
               + 4294967296 * ([0, 7, 9, 0, - 1, 22] ! 5 mod 4294967296))]"
    by blast
  from ev obtain e0 where "events s1 = [e0]" by auto
  with ev f(1) have "sessionRef session = 0"
    by (auto split: Event.splits)
  with f have "map_sum id (\<lambda>s2. (m_requestsByDc s2 1, m_requestMap s2 1, hasCallbacks s2 1,
                        last (events s2))) (cancel sampleEnv s1 1)
      = Inr (None, None, False, SessionCancel 0 1 98784247807)"
    by simp
  with s h sp show ?thesis by simp
qed

theorem C5_send_cancel_counterexample:
  "map_sum id (\<lambda>s2. last (events s2))
     (case send sampleEnv sampleState [0, 7, 9, 0, 11, 22]
             \<lparr>onDone = Some (UserCallback 0), onFail = Some (UserCallback 1)\<rparr> 0 0 True 0 of
        Inl f \<Rightarrow> Inl f
      | Inr (requestId, s1) \<Rightarrow> cancel sampleEnv s1 requestId)
     = Inr (SessionCancel 0 1 94489280523)
   \<and> specMsgId [0, 7, 9, 0, 11, 22] = 38654705671"
  by (simp add: send_def sendRequest_def getSession_def sendRequestTo_def storeRequest_def
      registerRequest_def unregisterRequest_def clearCallbacks_def crl_now_def fire_def
      GetNextRequestId_def wrapInt32_def kIntMax_def emplaceMap_def newRequest_def
      cancel_def queryRequestByDc_def findSession_def msgIdAt4_def specMsgId_def
      payloadBytes_def bytesValue_def Let_def sampleState_def sampleEnv_def)

subsection \<open>Migration to another DC\<close>

lemma capturedDigits_Some:
  "capturedDigits p e = Some d \<Longrightarrow> d \<noteq> [] \<and> list_all isDigit d"
  by (auto simp: capturedDigits_def Let_def split: if_splits)

lemma migrateMatch_Some:
  "migrateMatch e = Some d \<Longrightarrow> d \<noteq> [] \<and> list_all isDigit d"
  by (auto simp: migrateMatch_def split: option.splits dest: capturedDigits_Some)

lemma onErrorDefault_migrate_branch:
  "migrateMatch (errType error) = Some digits \<Longrightarrow>
     onErrorDefault E s requestId error = onErrorDefault_migrate E s requestId digits"
  by (simp add: onErrorDefault_def Let_def)

lemma map_of_fm_erase: "map_of (fm_erase k m) = (map_of m)(k := None)"
  by (induction m) (auto simp: fm_erase_def)

lemma sendRequestTo_keeps:
  "m_requestMap s i = Some v \<Longrightarrow>
     m_requestMap (sendRequestTo s session requestId request callbacks shiftedDcId msCanWait
        nl afterRequestId) i = Some v"
  by (cases "m_requestMap s requestId")
    (auto simp: sendRequestTo_def storeRequest_def registerRequest_def crl_now_def fire_def
      emplaceMap_def Let_def)

lemma sendFromStartSession_keeps:
  assumes "sendFromStartSession E s q cb k r = Inr s'" "m_requestMap s i = Some v"
  shows "m_requestMap s' i = Some v"
proof -
  obtain rid c where g: "GetNextRequestId (GlobalAtomicRequestId s) = (rid, c)"
    by (cases "GetNextRequestId (GlobalAtomicRequestId s)")
  have "m_requestMap (s\<lparr>GlobalAtomicRequestId := c\<rparr>) i = Some v"
    using assms(2) by simp
  note k = sendRequestTo_keeps [OF this]
  from assms(1) g obtain session where
    "s' = sendRequestTo (s\<lparr>GlobalAtomicRequestId := c\<rparr>) session rid
            (newRequest (serialize E q)) cb k 0 (sendNeedsLayer E) 0"
    by (auto simp: sendFromStartSession_def Let_def split: if_splits option.splits)
  then show ?thesis using k by simp
qed

lemma startSession_keeps:
  assumes "startSession E s k = Inr (x, s')" "m_requestMap s i = Some v"
  shows "m_requestMap s' i = Some v"
proof -
  obtain dc s1 where d: "getDcById E s k = (dc, s1)" by (cases "getDcById E s k")
  note g = getDcById_maps [OF d]
  let ?r = "case findSession (s1\<lparr>nextSessionRef := Suc (nextSessionRef s1)\<rparr>) k of
              Some existing \<Rightarrow> existing
            | None \<Rightarrow> \<lparr>sessionRef = nextSessionRef s1, getDcWithShift = k\<rparr>"
  let ?s4 = "fire (SessionStart (sessionRef ?r))
      (s1\<lparr>nextSessionRef := Suc (nextSessionRef s1),
          m_sessions := fm_emplace k \<lparr>sessionRef = nextSessionRef s1, getDcWithShift = k\<rparr>
                          (m_sessions s1)\<rparr>)"
  have s4: "m_requestMap ?s4 i = Some v"
    using g assms(2) by (simp add: fire_def)
  from assms(1) d have "s' = ?s4 \<or> (\<exists>q cb r. sendFromStartSession E ?s4 q cb k r = Inr s')"
    by (auto simp: startSession_def Let_def scheduleKeyDestroy_def performKeyDestroy_def
        split: if_splits sum.splits)
  then show ?thesis
  proof
    assume "s' = ?s4"
    then show ?thesis using s4 by simp
  next
    assume "\<exists>q cb r. sendFromStartSession E ?s4 q cb k r = Inr s'"
    then obtain q cb r where "sendFromStartSession E ?s4 q cb k r = Inr s'" by blast
    then show ?thesis
      using sendFromStartSession_keeps s4 by blast
  qed
qed

lemma getSession_keeps:
  assumes "getSession E s k = Inr (x, s')" "m_requestMap s i = Some v"
  shows "m_requestMap s' i = Some v"
proof -
  from assms(1) have "s' = s \<or> (\<exists>k'. startSession E s k' = Inr (x, s'))"
    by (auto simp: getSession_def split: if_splits option.splits sum.splits)
  then show ?thesis using assms(2) startSession_keeps by blast
qed

lemma checkIfMainAndKill_props:
  assumes "checkIfMainAndKill s k = (b, s')"
  shows "map_of (m_sessions s') = (map_of (m_sessions s))(k := None)"
    and "m_mainSession s' = m_mainSession s" and "m_mainDcId s' = m_mainDcId s"
    and "m_requestMap s' = m_requestMap s"
    and "m_authExportRequests s' = m_authExportRequests s"
    and "m_authWaiters s' = m_authWaiters s"
    and "b \<longleftrightarrow> (\<exists>r m. map_of (m_sessions s) k = Some r \<and> m_mainSession s = Some m
                  \<and> sessionRef m = sessionRef r)"
  using assms
  by (auto simp: checkIfMainAndKill_def removeSession_def fire_def Let_def map_of_fm_erase
      split: option.splits)

lemma sessionsOk_cong:
  "m_sessions s' = m_sessions s \<Longrightarrow> m_mainSession s' = m_mainSession s \<Longrightarrow>
     sessionsOk E s' = sessionsOk E s"
  by (simp add: sessionsOk_def)

lemma killSession_main:
  assumes ok: "sessionsOk E s" and main: "m_mainSession s = Some m"
    and N: "0 < m_mainDcId s" and ne: "getDcWithShift m \<noteq> m_mainDcId s"
    and k: "killSession E s (getDcWithShift m) = Inr s'"
  shows "sessionsOk E s'"
    and "\<exists>x. m_mainSession s' = Some x \<and> getDcWithShift x = m_mainDcId s"
    and "m_mainDcId s' = m_mainDcId s"
    and "m_authExportRequests s' = m_authExportRequests s"
    and "m_authWaiters s' = m_authWaiters s"
    and "m_requestMap s i = Some v \<Longrightarrow> m_requestMap s' i = Some v"
proof -
  obtain b sa where a: "checkIfMainAndKill s (getDcWithShift m) = (b, sa)"
    by (cases "checkIfMainAndKill s (getDcWithShift m)")
  note pa = checkIfMainAndKill_props [OF a]
  have stored: "map_of (m_sessions s) (getDcWithShift m) = Some m"
    using ok main by (simp add: sessionsOk_def)
  have b: "b" using pa(7) stored main by simp
  obtain b2 sb where c: "checkIfMainAndKill sa (m_mainDcId sa) = (b2, sb)"
    by (cases "checkIfMainAndKill sa (m_mainDcId sa)")
  note pb = checkIfMainAndKill_props [OF c]
  from k a b c obtain x sc where st: "startSession E sb (m_mainDcId sb) = Inr (x, sc)"
    and s': "s' = fire InvokeQueuedClearSessionsToDestroy (sc\<lparr>m_mainSession := Some x\<rparr>)"
    by (auto simp: killSession_def split: sum.splits)
  have dc: "m_mainDcId sb = m_mainDcId s" using pa(3) pb(3) by simp
  have none: "findSession sb (m_mainDcId sb) = None"
    using pb(1) pb(3) by (simp add: findSession_def)
  note n = startSession_new [OF none st]
  note f = startSession_frame [OF st]
  have ms: "map_of (m_sessions s') = (map_of (m_sessions s))
      (getDcWithShift m := None, m_mainDcId s := Some x)"
    using n(1) pa(1) pb(1) pa(3) dc by (simp add: s' fire_def)
  show "sessionsOk E s'"
    unfolding sessionsOk_def
  proof (intro conjI allI impI)
    fix j y assume "map_of (m_sessions s') j = Some y"
    then have "(j = m_mainDcId s \<and> y = x) \<or> map_of (m_sessions s) j = Some y"
      unfolding ms by (auto split: if_splits)
    then show "getDcWithShift y = j" "0 < j" "BareDcId E j \<noteq> 0"
      using ok n(2,3) dc N by (auto simp: sessionsOk_def)
  next
    fix m' assume "m_mainSession s' = Some m'"
    then have "m' = x" by (simp add: s' fire_def)
    then show "map_of (m_sessions s') (getDcWithShift m') = Some m'"
      unfolding ms using n(2) dc by simp
  qed
  show "\<exists>x. m_mainSession s' = Some x \<and> getDcWithShift x = m_mainDcId s"
    using n(2) dc by (simp add: s' fire_def)
  show "m_mainDcId s' = m_mainDcId s"
    using f dc by (simp add: s' fire_def sendFrame_def)
  show "m_authExportRequests s' = m_authExportRequests s"
    using f pa(5) pb(5) by (simp add: s' fire_def sendFrame_def)
  show "m_authWaiters s' = m_authWaiters s"
    using f pa(6) pb(6) by (simp add: s' fire_def sendFrame_def)
  show "m_requestMap s i = Some v \<Longrightarrow> m_requestMap s' i = Some v"
    using startSession_keeps [OF st, of i v] pa(4) pb(4) by (simp add: s' fire_def)
qed

lemma setMainDcId_main:
  assumes ok: "sessionsOk E s" and main: "m_mainSession s = Some m" and N: "0 < N"
    and k: "setMainDcId E s N = Inr s'"
  shows "sessionsOk E s'"
    and "\<exists>x. m_mainSession s' = Some x \<and> getDcWithShift x = N"
    and "m_mainDcId s' = N"
    and "m_authExportRequests s' = m_authExportRequests s"
    and "m_authWaiters s' = m_authWaiters s"
    and "m_requestMap s i = Some v \<Longrightarrow> m_requestMap s' i = Some v"
proof -
  let ?s2 = "s\<lparr>m_mainDcIdForced := True, m_mainDcId := N\<rparr>"
  have ok2: "sessionsOk E ?s2" using ok by (simp add: sessionsOk_def)
  have "sessionsOk E s' \<and> (\<exists>x. m_mainSession s' = Some x \<and> getDcWithShift x = N)
      \<and> m_mainDcId s' = N \<and> m_authExportRequests s' = m_authExportRequests s
      \<and> m_authWaiters s' = m_authWaiters s
      \<and> (m_requestMap s i = Some v \<longrightarrow> m_requestMap s' i = Some v)"
  proof (cases "getDcWithShift m = N")
    case True
    with k main have "s' = fire WriteMtpData ?s2"
      by (simp add: setMainDcId_def Let_def)
    have "sessionsOk E s'" using ok \<open>s' = _\<close> by (simp add: fire_def sessionsOk_def)
    then show ?thesis using main True \<open>s' = _\<close> by (simp add: fire_def)
  next
    case False
    with k main obtain s3 where k3: "killSession E ?s2 (getDcWithShift m) = Inr s3"
      and s': "s' = fire WriteMtpData s3"
      by (auto simp: setMainDcId_def Let_def split: sum.splits)
    have "m_mainSession ?s2 = Some m" "0 < m_mainDcId ?s2" "getDcWithShift m \<noteq> m_mainDcId ?s2"
      using main N False by simp_all
    note r = killSession_main [OF ok2 this k3]
    have "sessionsOk E s'" using r(1) by (simp add: s' fire_def sessionsOk_def)
    then show ?thesis using r(2-5) r(6) [of i v] by (simp add: s' fire_def)
  qed
  then show "sessionsOk E s'"
    and "\<exists>x. m_mainSession s' = Some x \<and> getDcWithShift x = N"
    and "m_mainDcId s' = N"
    and "m_authExportRequests s' = m_authExportRequests s"
    and "m_authWaiters s' = m_authWaiters s"
    and "m_requestMap s i = Some v \<Longrightarrow> m_requestMap s' i = Some v"
    by simp_all
qed


lemma startSession_returns:
  assumes "BareDcId E k \<noteq> 0" "k \<noteq> 0"
  shows "\<exists>x s'. startSession E s k = Inr (x, s')"
  using assms
  by (auto simp: startSession_def scheduleKeyDestroy_def performKeyDestroy_def
      sendFromStartSession_def Let_def fire_def isKeysDestroyer_def
      split: prod.splits sum.splits)

lemma getSession_returns:
  assumes "BareDcId E k \<noteq> 0" "k \<noteq> 0"
  shows "\<exists>x s'. getSession E s k = Inr (x, s')"
  using assms startSession_returns [OF assms, of s]
  by (auto simp: getSession_def split: option.splits)

lemma getSession_stored:
  assumes "getSession E s k = Inr (x, s')" "BareDcId E k \<noteq> 0" "k \<noteq> 0"
  shows "map_of (m_sessions s') k = Some x"
proof -
  from assms have "(findSession s k = Some x \<and> s' = s)
      \<or> (findSession s k = None \<and> startSession E s k = Inr (x, s'))"
    by (auto simp: getSession_def split: option.splits)
  then show ?thesis
    using startSession_new(1) [of s k E x s'] by (auto simp: findSession_def)
qed

lemma killSession_returns:
  assumes "BareDcId E (m_mainDcId s) \<noteq> 0" "m_mainDcId s \<noteq> 0"
  shows "\<exists>s'. killSession E s k = Inr s'"
proof -
  obtain b sa where a: "checkIfMainAndKill s k = (b, sa)"
    by (cases "checkIfMainAndKill s k")
  obtain b2 sb where c: "checkIfMainAndKill sa (m_mainDcId sa) = (b2, sb)"
    by (cases "checkIfMainAndKill sa (m_mainDcId sa)")
  have "m_mainDcId sb = m_mainDcId s"
    using checkIfMainAndKill_props(3) [OF a] checkIfMainAndKill_props(3) [OF c] by simp
  with assms obtain x sc where "startSession E sb (m_mainDcId sb) = Inr (x, sc)"
    using startSession_returns [of E "m_mainDcId sb" sb] by auto
  with a c show ?thesis by (simp add: killSession_def)
qed

lemma setMainDcId_returns:
  assumes "BareDcId E N \<noteq> 0" "N \<noteq> 0"
  shows "\<exists>s'. setMainDcId E s N = Inr s'"
proof (cases "m_mainSession s")
  case None
  then show ?thesis by (simp add: setMainDcId_def)
next
  case (Some m)
  obtain s3 where "killSession E (s\<lparr>m_mainDcIdForced := True, m_mainDcId := N\<rparr>)
      (getDcWithShift m) = Inr s3"
    using killSession_returns [of E "s\<lparr>m_mainDcIdForced := True, m_mainDcId := N\<rparr>"] assms
    by auto
  with Some show ?thesis by (simp add: setMainDcId_def Let_def)
qed

lemma migrate_main:
  assumes ok: "sessionsOk E s" and main: "m_mainSession s = Some m"
    and N: "toInt digits = N" "0 < N" "BareDcId E N \<noteq> 0"
    and r: "requestId \<noteq> 0" "m_requestsByDc s requestId = Some r" "r < 0"
    and q: "m_requestMap s requestId = Some request"
  shows "\<exists>s' x. onErrorDefault_migrate E s requestId digits = Inr (True, s')
     \<and> sessionsOk E s' \<and> m_mainSession s' = Some x \<and> map_of (m_sessions s') N = Some x
     \<and> m_mainDcId s' = N \<and> m_authExportRequests s' = m_authExportRequests s
     \<and> m_authWaiters s' = m_authWaiters s
     \<and> m_requestsByDc s' requestId = Some (- N)
     \<and> m_requestMap s' requestId = Some request
     \<and> events s' \<noteq> []
     \<and> last (events s') = SessionSendPrepared (sessionRef x) request 0"
proof -
  obtain s1 where k: "setMainDcId E s N = Inr s1"
    using setMainDcId_returns [of E N s] N by auto
  note p = setMainDcId_main [OF ok main N(2) k]
  from p(2) obtain x where x: "m_mainSession s1 = Some x" "getDcWithShift x = N" by blast
  have st: "map_of (m_sessions s1) N = Some x"
    using p(1) x by (auto simp: sessionsOk_def)
  have g: "getSession E s1 N = Inr (x, s1)"
    using getSession_found [OF st] N by simp
  have q1: "m_requestMap s1 requestId = Some request" using p(6) q by simp
  let ?s' = "fire (SessionSendPrepared (sessionRef x) request 0) (registerRequest s1 requestId (- N))"
  have "onErrorDefault_migrate E s requestId digits = Inr (True, ?s')"
    using N r k q1 g by (simp add: onErrorDefault_migrate_def queryRequestByDc_def Let_def)
  moreover have "sessionsOk E ?s'"
    using p(1) by (simp add: sessionsOk_def fire_def registerRequest_def)
  ultimately show ?thesis
    using x st p(3-5) q1
    by (intro exI [of _ ?s'] exI [of _ x]) (simp add: fire_def registerRequest_def)
qed

lemma migrate_shifted:
  assumes N: "toInt digits = N" "N \<noteq> 0"
    and r: "requestId \<noteq> 0" "m_requestsByDc s requestId = Some r" "0 < r"
    and t: "target = ShiftDcId E N (GetDcIdShift E r)" "0 < target" "BareDcId E target \<noteq> 0"
    and q: "m_requestMap s requestId = Some request"
  shows "\<exists>s' x. onErrorDefault_migrate E s requestId digits = Inr (True, s')
     \<and> map_of (m_sessions s') target = Some x
     \<and> m_requestsByDc s' requestId = Some target
     \<and> m_requestMap s' requestId = Some request
     \<and> events s' \<noteq> []
     \<and> last (events s') = SessionSendPrepared (sessionRef x) request 0"
proof -
  obtain x s2 where g: "getSession E s target = Inr (x, s2)"
    using getSession_returns [of E target s] t by auto
  have st: "map_of (m_sessions s2) target = Some x"
    using getSession_stored [OF g] t by simp
  have q2: "m_requestMap s2 requestId = Some request"
    using getSession_keeps [OF g q] .
  let ?s' = "fire (SessionSendPrepared (sessionRef x) request 0)
               (registerRequest s2 requestId target)"
  have "onErrorDefault_migrate E s requestId digits = Inr (True, ?s')"
    using N r q g t(1) by (simp add: onErrorDefault_migrate_def queryRequestByDc_def Let_def)
  then show ?thesis
    using st q2
    by (intro exI [of _ ?s'] exI [of _ x]) (simp add: fire_def registerRequest_def)
qed


text \<open>
  C2. Let \<^verbatim>\<open>onErrorDefault\<close> be given an error whose type matches
  \<^verbatim>\<open>^(FILE|PHONE|NETWORK|USER)_MIGRATE_(\d+)$\<close> with \<open>N\<close> the number read from the
  digits, \<open>N \<noteq> 0\<close>, for a request id that is not \<open>0\<close>, has the routing \<open>r \<noteq> 0\<close> and a
  stored payload \<open>request\<close>. Let \<open>target\<close> be \<open>N\<close> when \<open>r < 0\<close> and
  \<^verbatim>\<open>ShiftDcId(N, GetDcIdShift(r))\<close> otherwise, and let \<open>target\<close> be an id sessions are
  made for (positive, with a bare DC). For \<open>r < 0\<close> let there be a main session; for
  \<open>0 < r\<close> let \<open>N\<close> be a DC id of the layout (the shift read back from \<open>target\<close> is
  the shift of \<open>r\<close>). Then the error is handled (the call returns \<open>true\<close>) and:
  for \<open>r < 0\<close> the main DC id is \<open>N\<close> afterwards and the auth-export table and the
  waiter lists are untouched; the routing of the id is \<open>- target\<close> for \<open>r < 0\<close> and
  \<open>target\<close> otherwise; the last call made is \<^verbatim>\<open>sendPrepared(request)\<close> of the session
  stored under \<open>target\<close>; and handling the same error once more is handled again and
  leaves the routing of the id as it is.
\<close>

theorem C2_migrate:
  assumes "sessionsOk E s"
    and "migrateMatch (errType error) = Some digits" and "toInt digits = N" and "N \<noteq> 0"
    and "requestId \<noteq> 0" and "m_requestsByDc s requestId = Some r" and "r \<noteq> 0"
    and "m_requestMap s requestId = Some request"
    and "target = (if r < 0 then N else ShiftDcId E N (GetDcIdShift E r))"
    and "0 < target" and "BareDcId E target \<noteq> 0"
    and "r < 0 \<longrightarrow> m_mainSession s \<noteq> None"
    and "0 < r \<longrightarrow> GetDcIdShift E target = GetDcIdShift E r"
  shows "\<exists>s' (session::Session) s''.
      onErrorDefault E s requestId error = Inr (True, s')
    \<and> (r < 0 \<longrightarrow> m_mainDcId s' = N
         \<and> m_authExportRequests s' = m_authExportRequests s
         \<and> m_authWaiters s' = m_authWaiters s)
    \<and> m_requestsByDc s' requestId = Some (if r < 0 then - target else target)
    \<and> map_of (m_sessions s') target = Some session
    \<and> events s' \<noteq> []
    \<and> last (events s') = SessionSendPrepared (sessionRef session) request 0
    \<and> onErrorDefault E s' requestId error = Inr (True, s'')
    \<and> m_requestsByDc s'' requestId = m_requestsByDc s' requestId"
proof (cases "r < 0")
  case True
  with assms obtain m where main: "m_mainSession s = Some m" by auto
  from True assms have t: "target = N" "0 < N" "BareDcId E N \<noteq> 0" by simp_all
  from migrate_main [OF assms(1) main assms(3) t(2,3) assms(5,6) True assms(8)]
  obtain s' x where
    a: "onErrorDefault_migrate E s requestId digits = Inr (True, s')"
      "sessionsOk E s'" "m_mainSession s' = Some x" "map_of (m_sessions s') N = Some x"
      "m_mainDcId s' = N" "m_authExportRequests s' = m_authExportRequests s"
      "m_authWaiters s' = m_authWaiters s"
      "m_requestsByDc s' requestId = Some (- N)"
      "m_requestMap s' requestId = Some request"
      "events s' \<noteq> []"
      "last (events s') = SessionSendPrepared (sessionRef x) request 0"
    by blast
  have neg: "- N < 0" using t(2) by simp
  from migrate_main [OF a(2,3) assms(3) t(2,3) assms(5) a(8) neg a(9)]
  obtain s'' where
    b: "onErrorDefault_migrate E s' requestId digits = Inr (True, s'')"
      "m_requestsByDc s'' requestId = Some (- N)"
    by blast
  show ?thesis
    apply (rule_tac x = s' in exI)
    apply (rule_tac x = x in exI)
    apply (rule_tac x = s'' in exI)
    using a b t(1) True onErrorDefault_migrate_branch [OF assms(2)] apply simp
    done
next
  case False
  with assms have r: "0 < r" and t: "target = ShiftDcId E N (GetDcIdShift E r)"
    and law: "GetDcIdShift E target = GetDcIdShift E r" by simp_all
  from migrate_shifted [OF assms(3,4,5,6) r t assms(10,11,8)]
  obtain s' x where
    a: "onErrorDefault_migrate E s requestId digits = Inr (True, s')"
      "map_of (m_sessions s') target = Some x"
      "m_requestsByDc s' requestId = Some target"
      "m_requestMap s' requestId = Some request"
      "events s' \<noteq> []"
      "last (events s') = SessionSendPrepared (sessionRef x) request 0"
    by blast
  have t': "target = ShiftDcId E N (GetDcIdShift E target)" using t law by simp
  from migrate_shifted [OF assms(3,4,5) a(3) assms(10) t' assms(10,11) a(4)]
  obtain s'' where
    b: "onErrorDefault_migrate E s' requestId digits = Inr (True, s'')"
      "m_requestsByDc s'' requestId = Some target"
    by blast
  show ?thesis
    apply (rule_tac x = s' in exI)
    apply (rule_tac x = x in exI)
    apply (rule_tac x = s'' in exI)
    using a b False onErrorDefault_migrate_branch [OF assms(2)] apply simp
    done
qed

lemma sampleSent_ok: "sessionsOk sampleEnv (sampleSent\<lparr>m_requestsByDc := byDc\<rparr>)"
  using sampleState_ok by (simp add: sessionsOk_def sampleSent_def)

theorem C2_migrate_witness:
  "migrateMatch ''PHONE_MIGRATE_4'' = Some ''4'' \<and> toInt ''4'' = 4
   \<and> (\<exists>s' s''.
        onErrorDefault sampleEnv (sampleSent\<lparr>m_requestsByDc := [7 \<mapsto> - 2]\<rparr>) 7
            \<lparr>errCode = 303, errType = ''PHONE_MIGRATE_4''\<rparr> = Inr (True, s')
        \<and> m_mainDcId s' = 4 \<and> m_requestsByDc s' 7 = Some (- 4)
        \<and> map_of (m_sessions s') 4 \<noteq> None
        \<and> onErrorDefault sampleEnv s' 7 \<lparr>errCode = 303, errType = ''PHONE_MIGRATE_4''\<rparr>
            = Inr (True, s'')
        \<and> m_requestsByDc s'' 7 = Some (- 4))
   \<and> (\<exists>s' s''.
        onErrorDefault sampleEnv (sampleSent\<lparr>m_requestsByDc := [7 \<mapsto> 20002]\<rparr>) 7
            \<lparr>errCode = 303, errType = ''PHONE_MIGRATE_4''\<rparr> = Inr (True, s')
        \<and> m_requestsByDc s' 7 = Some 20004
        \<and> map_of (m_sessions s') 20004 \<noteq> None
        \<and> onErrorDefault sampleEnv s' 7 \<lparr>errCode = 303, errType = ''PHONE_MIGRATE_4''\<rparr>
            = Inr (True, s'')
        \<and> m_requestsByDc s'' 7 = Some 20004)"
proof -
  let ?e = "\<lparr>errCode = 303, errType = ''PHONE_MIGRATE_4''\<rparr>"
  have m: "migrateMatch (errType ?e) = Some ''4''"
    by (simp add: migrateMatch_def capturedDigits_def isDigit_def)
  have n: "toInt ''4'' = 4"
    by (simp add: toInt_def digitValue_def kIntMax_def)
  have q: "m_requestMap (sampleSent\<lparr>m_requestsByDc := byDc\<rparr>) 7 = Some sampleRequest" for byDc
    by (simp add: sampleSent_def)
  have "\<exists>s' (session::Session) s''.
      onErrorDefault sampleEnv (sampleSent\<lparr>m_requestsByDc := [7 \<mapsto> - 2]\<rparr>) 7 ?e = Inr (True, s')
    \<and> (- 2 < (0::int) \<longrightarrow> m_mainDcId s' = 4
         \<and> m_authExportRequests s' = m_authExportRequests (sampleSent\<lparr>m_requestsByDc := [7 \<mapsto> - 2]\<rparr>)
         \<and> m_authWaiters s' = m_authWaiters (sampleSent\<lparr>m_requestsByDc := [7 \<mapsto> - 2]\<rparr>))
    \<and> m_requestsByDc s' 7 = Some (if - 2 < (0::int) then - 4 else 4)
    \<and> map_of (m_sessions s') 4 = Some session
    \<and> events s' \<noteq> []
    \<and> last (events s') = SessionSendPrepared (sessionRef session) sampleRequest 0
    \<and> onErrorDefault sampleEnv s' 7 ?e = Inr (True, s'')
    \<and> m_requestsByDc s'' 7 = m_requestsByDc s' 7"
    by (rule C2_migrate [OF sampleSent_ok m n _ _ _ _ q])
      (simp_all add: sampleEnv_def sampleSent_def sampleState_def)
  then have a: "\<exists>s' s''.
        onErrorDefault sampleEnv (sampleSent\<lparr>m_requestsByDc := [7 \<mapsto> - 2]\<rparr>) 7 ?e = Inr (True, s')
        \<and> m_mainDcId s' = 4 \<and> m_requestsByDc s' 7 = Some (- 4)
        \<and> map_of (m_sessions s') 4 \<noteq> None
        \<and> onErrorDefault sampleEnv s' 7 ?e = Inr (True, s'')
        \<and> m_requestsByDc s'' 7 = Some (- 4)"
    by fastforce
  have "\<exists>s' (session::Session) s''.
      onErrorDefault sampleEnv (sampleSent\<lparr>m_requestsByDc := [7 \<mapsto> 20002]\<rparr>) 7 ?e = Inr (True, s')
    \<and> (20002 < (0::int) \<longrightarrow> m_mainDcId s' = 4
         \<and> m_authExportRequests s' = m_authExportRequests (sampleSent\<lparr>m_requestsByDc := [7 \<mapsto> 20002]\<rparr>)
         \<and> m_authWaiters s' = m_authWaiters (sampleSent\<lparr>m_requestsByDc := [7 \<mapsto> 20002]\<rparr>))
    \<and> m_requestsByDc s' 7 = Some (if 20002 < (0::int) then - 20004 else 20004)
    \<and> map_of (m_sessions s') 20004 = Some session
    \<and> events s' \<noteq> []
    \<and> last (events s') = SessionSendPrepared (sessionRef session) sampleRequest 0
    \<and> onErrorDefault sampleEnv s' 7 ?e = Inr (True, s'')
    \<and> m_requestsByDc s'' 7 = m_requestsByDc s' 7"
    by (rule C2_migrate [OF sampleSent_ok m n _ _ _ _ q])
      (simp_all add: sampleEnv_def sampleSent_def sampleState_def)
  then have b: "\<exists>s' s''.
        onErrorDefault sampleEnv (sampleSent\<lparr>m_requestsByDc := [7 \<mapsto> 20002]\<rparr>) 7 ?e = Inr (True, s')
        \<and> m_requestsByDc s' 7 = Some 20004
        \<and> map_of (m_sessions s') 20004 \<noteq> None
        \<and> onErrorDefault sampleEnv s' 7 ?e = Inr (True, s'')
        \<and> m_requestsByDc s'' 7 = Some 20004"
    by fastforce
  from m n a b show ?thesis by simp
qed

subsection \<open>The key destroyer\<close>

lemma freeDestroyDcId_returns:
  assumes inc: "\<forall>x. 0 < x \<longrightarrow> x < nxt x \<and> B (nxt x) = B x"
  shows "0 < x \<Longrightarrow>
     \<exists>y n. freeDestroyDcId nxt keys x = Some y \<and> map_of keys y = None \<and> 0 < y
       \<and> B y = B x \<and> y = (nxt ^^ n) x"
proof (induction "card {k \<in> fst ` set keys. x \<le> k}" arbitrary: x rule: less_induct)
  case less
  show ?case
  proof (cases "map_of keys x")
    case None
    then have "freeDestroyDcId nxt keys x = Some x"
      by (subst freeDestroyDcId.simps) simp
    with None less.prems show ?thesis
      by (intro exI [of _ x] exI [of _ 0]) simp
  next
    case (Some v)
    then have mem: "x \<in> fst ` set keys" by (metis map_of_SomeD fst_conv image_eqI)
    have up: "x < nxt x" "B (nxt x) = B x" using inc less.prems by simp_all
    have "x \<in> {k \<in> fst ` set keys. x \<le> k}" "x \<notin> {k \<in> fst ` set keys. nxt x \<le> k}"
      "{k \<in> fst ` set keys. nxt x \<le> k} \<subseteq> {k \<in> fst ` set keys. x \<le> k}"
      using mem up(1) by auto
    then have "{k \<in> fst ` set keys. nxt x \<le> k} \<subset> {k \<in> fst ` set keys. x \<le> k}"
      by blast
    then have "card {k \<in> fst ` set keys. nxt x \<le> k} < card {k \<in> fst ` set keys. x \<le> k}"
      by (intro psubset_card_mono) simp_all
    from less.hyps [OF this] up(1) less.prems
    obtain y n where y: "freeDestroyDcId nxt keys (nxt x) = Some y" "map_of keys y = None"
      "0 < y" "B y = B (nxt x)" "y = (nxt ^^ n) (nxt x)"
      by fastforce
    have "freeDestroyDcId nxt keys x = Some y"
      using Some y(1) by (subst freeDestroyDcId.simps) simp
    with y up(2) show ?thesis
      by (intro exI [of _ y] exI [of _ "Suc n"]) (simp add: funpow_swap1)
  qed
qed


lemma fm_erase_absent: "map_of m k = None \<Longrightarrow> fm_erase k m = m"
  by (induction m) (auto simp: fm_erase_def split: if_splits)

lemma mset_fm_insert:
  "map_of m k = None \<Longrightarrow> mset (fm_insert k v m) = add_mset (k, v) (mset m)"
  by (induction m) (auto split: if_splits)

lemma fm_insert_fresh:
  assumes "map_of m k = None"
  shows "mset (map snd (fm_insert k v m)) = add_mset v (mset (map snd m))"
    and "distinct (map fst m) \<Longrightarrow> distinct (map fst (fm_insert k v m))"
proof -
  note e = mset_fm_insert [OF assms, of v]
  have "mset (map snd (fm_insert k v m)) = image_mset snd (mset (fm_insert k v m))" by simp
  then show "mset (map snd (fm_insert k v m)) = add_mset v (mset (map snd m))"
    unfolding e by simp
  have "mset (map fst (fm_insert k v m)) = image_mset fst (mset (fm_insert k v m))" by simp
  then have "mset (map fst (fm_insert k v m)) = mset (k # map fst m)"
    unfolding e by simp
  then have "distinct (map fst (fm_insert k v m)) = distinct (k # map fst m)"
    by (rule mset_eq_imp_distinct_iff)
  moreover have "k \<notin> set (map fst m)"
    using assms by (simp add: map_of_eq_None_iff)
  ultimately show "distinct (map fst m) \<Longrightarrow> distinct (map fst (fm_insert k v m))" by simp
qed

lemma placeKeys_destroyer:
  assumes inc: "\<forall>x. 0 < x \<longrightarrow> x < destroyKeyNextDcId E x
                  \<and> BareDcId E (destroyKeyNextDcId E x) = BareDcId E x"
  shows "isKeysDestroyer s \<Longrightarrow>
     dom (map_of (m_dcenters s)) = dom (map_of (m_keysForWrite s)) \<Longrightarrow>
     \<forall>k\<in>set keys. 0 < key_dcId k \<and> BareDcId E (key_dcId k) \<noteq> 0 \<Longrightarrow>
     distinct (map fst (m_keysForWrite s)) \<Longrightarrow>
     \<forall>k\<in>dom (map_of (m_keysForWrite s)). 0 < k \<and> BareDcId E k \<noteq> 0 \<Longrightarrow>
     placedBy (destroyKeyNextDcId E) (m_keysForWrite s) \<Longrightarrow>
     \<exists>s'. placeKeys E keys s = Inr s'
       \<and> dom (map_of (m_dcenters s')) = dom (map_of (m_keysForWrite s'))
       \<and> distinct (map fst (m_keysForWrite s'))
       \<and> (\<forall>k\<in>dom (map_of (m_keysForWrite s')). 0 < k \<and> BareDcId E k \<noteq> 0)
       \<and> placedBy (destroyKeyNextDcId E) (m_keysForWrite s')
       \<and> mset (map snd (m_keysForWrite s'))
           = mset (map snd (m_keysForWrite s)) + mset (map Some keys)
       \<and> m_mode s' = m_mode s \<and> m_mainSession s' = m_mainSession s
       \<and> m_sessions s' = m_sessions s \<and> events s' = events s
       \<and> m_mainDcId s' = m_mainDcId s \<and> m_configLoader s' = m_configLoader s"
proof (induction keys arbitrary: s)
  case Nil
  then show ?case by simp
next
  case (Cons key keys)
  let ?nxt = "destroyKeyNextDcId E"
  let ?d = "key_dcId key"
  have d: "0 < ?d" "BareDcId E ?d \<noteq> 0" using Cons.prems(3) by simp_all
  then have nd: "0 < ?nxt ?d" "BareDcId E (?nxt ?d) = BareDcId E ?d"
    using inc by (force, simp)
  from freeDestroyDcId_returns [OF inc nd(1), of "m_keysForWrite s"]
  obtain y n where y: "freeDestroyDcId ?nxt (m_keysForWrite s) (?nxt ?d) = Some y"
    "map_of (m_keysForWrite s) y = None" "0 < y" "BareDcId E y = BareDcId E (?nxt ?d)"
    "y = (?nxt ^^ n) (?nxt ?d)"
    by blast
  have yd: "map_of (m_dcenters s) y = None"
    using y(2) Cons.prems(2) by (metis domIff)
  let ?dc = "\<lparr>dcenterId = BareDcId E y, dcenterKey = Some key\<rparr>"
  let ?s2 = "s\<lparr>m_keysForWrite := fm_insert y (Some key) (m_keysForWrite s),
               m_dcenters := fm_insert y ?dc (m_dcenters s)\<rparr>"
  have step: "placeKeys E (key # keys) s = placeKeys E keys ?s2"
    using Cons.prems(1) y(1,2) yd
    by (simp add: Let_def fm_assign_def fm_erase_absent addDc_def fm_emplace_def)
  have m1: "map_of (m_keysForWrite ?s2) = (map_of (m_keysForWrite s))(y \<mapsto> Some key)"
    using y(2) by (simp add: map_of_fm_insert)
  have m2: "map_of (m_dcenters ?s2) = (map_of (m_dcenters s))(y \<mapsto> ?dc)"
    using yd by (simp add: map_of_fm_insert)
  have p1: "isKeysDestroyer ?s2" using Cons.prems(1) by (simp add: isKeysDestroyer_def)
  have p2: "dom (map_of (m_dcenters ?s2)) = dom (map_of (m_keysForWrite ?s2))"
    unfolding m1 m2 using Cons.prems(2) by simp
  have p3: "\<forall>k\<in>set keys. 0 < key_dcId k \<and> BareDcId E (key_dcId k) \<noteq> 0"
    using Cons.prems(3) by simp
  have p4: "distinct (map fst (m_keysForWrite ?s2))"
    using fm_insert_fresh(2) [OF y(2)] Cons.prems(4) by simp
  have p5: "\<forall>k\<in>dom (map_of (m_keysForWrite ?s2)). 0 < k \<and> BareDcId E k \<noteq> 0"
    unfolding m1 using Cons.prems(5) y(3,4) nd(2) d(2) by auto
  have "y = (?nxt ^^ Suc n) ?d" using y(5) by (simp add: funpow_swap1)
  then have p6: "placedBy ?nxt (m_keysForWrite ?s2)"
    using Cons.prems(6) unfolding placedBy_def m1 by (auto split: if_splits)
  from Cons.IH [OF p1 p2 p3 p4 p5 p6]
  obtain s' where r: "placeKeys E keys ?s2 = Inr s'"
       "dom (map_of (m_dcenters s')) = dom (map_of (m_keysForWrite s'))"
       "distinct (map fst (m_keysForWrite s'))"
       "\<forall>k\<in>dom (map_of (m_keysForWrite s')). 0 < k \<and> BareDcId E k \<noteq> 0"
       "placedBy ?nxt (m_keysForWrite s')"
       "mset (map snd (m_keysForWrite s'))
           = mset (map snd (m_keysForWrite ?s2)) + mset (map Some keys)"
       "m_mode s' = m_mode ?s2" "m_mainSession s' = m_mainSession ?s2"
       "m_sessions s' = m_sessions ?s2" "events s' = events ?s2"
       "m_mainDcId s' = m_mainDcId ?s2" "m_configLoader s' = m_configLoader ?s2"
    by blast
  have v: "mset (map snd (m_keysForWrite ?s2))
      = add_mset (Some key) (mset (map snd (m_keysForWrite s)))"
    using fm_insert_fresh(1) [OF y(2)] by simp
  show ?case
    unfolding step
    apply (rule exI [of _ s'])
    using r v apply simp
    done
qed


lemma keys_fm_insert: "fst ` set (fm_insert k v m) = insert k (fst ` set m)"
  by (induction k v m rule: fm_insert.induct) (simp_all add: insert_commute)

lemma dom_fm_insert: "dom (map_of (fm_insert k v m)) = insert k (dom (map_of m))"
  by (simp add: dom_map_of_conv_image_fst keys_fm_insert)

lemma signalCount_append [simp]: "signalCount (a @ b) = signalCount a + signalCount b"
  by (simp add: signalCount_def)

lemma sendRequestTo_destroyer:
  "m_dcenters (sendRequestTo s session requestId request callbacks shiftedDcId msCanWait nl
     afterRequestId) = m_dcenters s"
  "signalCount (events (sendRequestTo s session requestId request callbacks shiftedDcId
     msCanWait nl afterRequestId)) = signalCount (events s)"
  by (simp_all add: sendRequestTo_def storeRequest_def registerRequest_def crl_now_def fire_def
      Let_def signalCount_def split: prod.splits)

lemma startSession_destroyer:
  assumes "startSession E s k = Inr (x, s')" "map_of (m_dcenters s) k \<noteq> None"
  shows "m_dcenters s' = m_dcenters s"
    and "signalCount (events s') = signalCount (events s)"
    and "dom (map_of (m_sessions s')) = insert k (dom (map_of (m_sessions s)))"
proof -
  from assms(2) obtain dc where d: "getDcById E s k = (dc, s)"
    by (auto simp: getDcById_def findDc_def)
  let ?r = "case findSession (s\<lparr>nextSessionRef := Suc (nextSessionRef s)\<rparr>) k of
              Some existing \<Rightarrow> existing
            | None \<Rightarrow> \<lparr>sessionRef = nextSessionRef s, getDcWithShift = k\<rparr>"
  let ?s4 = "fire (SessionStart (sessionRef ?r))
      (s\<lparr>nextSessionRef := Suc (nextSessionRef s),
          m_sessions := fm_emplace k \<lparr>sessionRef = nextSessionRef s, getDcWithShift = k\<rparr>
                          (m_sessions s)\<rparr>)"
  have s4: "m_dcenters ?s4 = m_dcenters s" "signalCount (events ?s4) = signalCount (events s)"
    "dom (map_of (m_sessions ?s4)) = insert k (dom (map_of (m_sessions s)))"
    by (simp_all add: fire_def signalCount_def fm_emplace_def dom_fm_insert)
  from assms(1) d have "s' = ?s4 \<or> (\<exists>q cb r. sendFromStartSession E ?s4 q cb k r = Inr s')"
    by (auto simp: startSession_def Let_def scheduleKeyDestroy_def performKeyDestroy_def
        split: if_splits sum.splits)
  then have "m_dcenters s' = m_dcenters ?s4 \<and> signalCount (events s') = signalCount (events ?s4)
     \<and> m_sessions s' = m_sessions ?s4"
  proof
    assume "s' = ?s4"
    then show ?thesis by simp
  next
    assume "\<exists>q cb r. sendFromStartSession E ?s4 q cb k r = Inr s'"
    then obtain q cb r where a: "sendFromStartSession E ?s4 q cb k r = Inr s'" by blast
    obtain rid c where g: "GetNextRequestId (GlobalAtomicRequestId ?s4) = (rid, c)"
      by (cases "GetNextRequestId (GlobalAtomicRequestId ?s4)")
    from a g obtain session where
      "s' = sendRequestTo (?s4\<lparr>GlobalAtomicRequestId := c\<rparr>) session rid
              (newRequest (serialize E q)) cb k 0 (sendNeedsLayer E) 0"
      by (auto simp: sendFromStartSession_def Let_def split: if_splits option.splits)
    then show ?thesis
      by (simp add: sendRequestTo_destroyer sendRequestTo_sessions)
  qed
  with s4 show "m_dcenters s' = m_dcenters s"
    and "signalCount (events s') = signalCount (events s)"
    and "dom (map_of (m_sessions s')) = insert k (dom (map_of (m_sessions s)))"
    by simp_all
qed

lemma startSessions_destroyer:
  "\<forall>k\<in>set ks. k \<noteq> 0 \<and> BareDcId E k \<noteq> 0 \<and> map_of (m_dcenters s) k \<noteq> None \<Longrightarrow>
     \<exists>s'. startSessions E ks s = Inr s' \<and> sendFrame s s' \<and> m_dcenters s' = m_dcenters s
       \<and> signalCount (events s') = signalCount (events s)
       \<and> dom (map_of (m_sessions s')) = set ks \<union> dom (map_of (m_sessions s))"
proof (induction ks arbitrary: s)
  case Nil
  then show ?case by (simp add: sendFrame_refl)
next
  case (Cons k ks)
  then have k: "BareDcId E k \<noteq> 0" "k \<noteq> 0" "map_of (m_dcenters s) k \<noteq> None" by simp_all
  from startSession_returns [OF k(1,2), of s]
  obtain x s1 where st: "startSession E s k = Inr (x, s1)" by blast
  note p = startSession_destroyer [OF st k(3)]
  note f = startSession_frame [OF st]
  have "\<forall>k\<in>set ks. k \<noteq> 0 \<and> BareDcId E k \<noteq> 0 \<and> map_of (m_dcenters s1) k \<noteq> None"
    using Cons.prems p(1) by simp
  from Cons.IH [OF this]
  obtain s' where r: "startSessions E ks s1 = Inr s'" "sendFrame s1 s'"
    "m_dcenters s' = m_dcenters s1" "signalCount (events s') = signalCount (events s1)"
    "dom (map_of (m_sessions s')) = set ks \<union> dom (map_of (m_sessions s1))"
    by blast
  show ?case
    apply (rule exI [of _ s'])
    using st r p sendFrame_trans [OF f r(2)] apply simp
    done
qed


lemma completedKeyDestroy_step:
  assumes "isKeysDestroyer s" "m_mainSession s = None"
  shows "\<exists>s'. completedKeyDestroy E s k = Inr s'
     \<and> m_dcenters s' = fm_erase k (m_dcenters s)
     \<and> m_keysForWrite s' = fm_erase k (m_keysForWrite s)
     \<and> m_sessions s' = fm_erase k (m_sessions s)
     \<and> isKeysDestroyer s' \<and> m_mainSession s' = None
     \<and> events s' = events s
          @ (case map_of (m_sessions s) k of
               Some x \<Rightarrow> [SessionKill (sessionRef x)] | None \<Rightarrow> [])
          @ [InvokeQueuedClearSessionsToDestroy]
          @ (if fm_erase k (m_dcenters s) = [] then [AllKeysDestroyedFired] else [])"
  using assms
  by (auto simp: completedKeyDestroy_def removeDc_def killSession_def checkIfMainAndKill_def
      removeSession_def fire_def Let_def isKeysDestroyer_def fm_erase_absent
      split: option.splits)

lemma completeKeys_run:
  "isKeysDestroyer s \<Longrightarrow> m_mainSession s = None \<Longrightarrow> distinct ks \<Longrightarrow>
   fst ` set (m_dcenters s) = set ks \<Longrightarrow>
     \<exists>s'. completeKeys E ks s = Inr s' \<and> m_dcenters s' = []
       \<and> m_keysForWrite s' = filter (\<lambda>e. fst e \<notin> set ks) (m_keysForWrite s)
       \<and> m_sessions s' = filter (\<lambda>e. fst e \<notin> set ks) (m_sessions s)
       \<and> (ks \<noteq> [] \<longrightarrow> signalCount (events s') = Suc (signalCount (events s))
             \<and> last (events s') = AllKeysDestroyedFired)"
proof (induction ks arbitrary: s)
  case Nil
  then show ?case by simp
next
  case (Cons k ks)
  from completedKeyDestroy_step [OF Cons.prems(1,2), of E k]
  obtain s1 where s1: "completedKeyDestroy E s k = Inr s1"
     "m_dcenters s1 = fm_erase k (m_dcenters s)"
     "m_keysForWrite s1 = fm_erase k (m_keysForWrite s)"
     "m_sessions s1 = fm_erase k (m_sessions s)"
     "isKeysDestroyer s1" "m_mainSession s1 = None"
     "events s1 = events s
          @ (case map_of (m_sessions s) k of
               Some x \<Rightarrow> [SessionKill (sessionRef x)] | None \<Rightarrow> [])
          @ [InvokeQueuedClearSessionsToDestroy]
          @ (if fm_erase k (m_dcenters s) = [] then [AllKeysDestroyedFired] else [])"
    by blast
  have k: "k \<notin> set ks" "distinct ks" using Cons.prems(3) by simp_all
  have keys: "fst ` set (m_dcenters s1) = set ks"
    using Cons.prems(4) k(1) unfolding s1(2) fm_erase_def by force
  have empty: "fm_erase k (m_dcenters s) = [] \<longleftrightarrow> ks = []"
    using keys unfolding s1(2) by auto
  from Cons.IH [OF s1(5,6) k(2) keys]
  obtain s' where r: "completeKeys E ks s1 = Inr s'" "m_dcenters s' = []"
    "m_keysForWrite s' = filter (\<lambda>e. fst e \<notin> set ks) (m_keysForWrite s1)"
    "m_sessions s' = filter (\<lambda>e. fst e \<notin> set ks) (m_sessions s1)"
    "ks \<noteq> [] \<longrightarrow> signalCount (events s') = Suc (signalCount (events s1))
             \<and> last (events s') = AllKeysDestroyedFired"
    by blast
  have c: "signalCount (events s1) = signalCount (events s) + (if ks = [] then 1 else 0)"
    unfolding s1(7) empty by (simp add: signalCount_def split: option.splits)
  have l: "ks = [] \<Longrightarrow> last (events s1) = AllKeysDestroyedFired"
    unfolding s1(7) empty by simp
  have e: "ks = [] \<Longrightarrow> s' = s1" using r(1) by simp
  have f: "filter (\<lambda>e. fst e \<notin> set ks) (fm_erase k m) = filter (\<lambda>e. fst e \<notin> set (k # ks)) m"
    for m :: "(int \<times> 'x) list"
    by (induction m) (auto simp: fm_erase_def)
  show ?case
    apply (rule exI [of _ s'])
    using s1(1) r c l e apply (cases "ks = []")
     apply (simp_all add: s1(3,4) f)
    apply (simp add: fm_erase_def)
    done
qed


lemma start_destroyer:
  assumes c: "constructed E KeysDestroyer s"
    and m: "cfgMainDcId config = kNoneMainDc E" "kNoneMainDc E \<noteq> kNotSetMainDc E"
    and inc: "\<forall>x. 0 < x \<longrightarrow> x < destroyKeyNextDcId E x
                  \<and> BareDcId E (destroyKeyNextDcId E x) = BareDcId E x"
    and keys: "\<forall>k\<in>set (cfgKeys config). 0 < key_dcId k \<and> BareDcId E (key_dcId k) \<noteq> 0"
  shows "\<exists>s1. start E s config = Inr s1
     \<and> isKeysDestroyer s1 \<and> m_mainSession s1 = None
     \<and> distinct (map fst (m_keysForWrite s1))
     \<and> mset (map snd (m_keysForWrite s1)) = mset (map Some (cfgKeys config))
     \<and> placedBy (destroyKeyNextDcId E) (m_keysForWrite s1)
     \<and> dom (map_of (m_dcenters s1)) = dom (map_of (m_keysForWrite s1))
     \<and> dom (map_of (m_sessions s1)) = dom (map_of (m_keysForWrite s1))
     \<and> signalCount (events s1) = signalCount (events s)"
proof -
  let ?s0 = "s\<lparr>m_deviceModel := cfgDeviceModel config,
               m_systemVersion := cfgSystemVersion config\<rparr>"
  have i: "isKeysDestroyer ?s0" "dom (map_of (m_dcenters ?s0)) = dom (map_of (m_keysForWrite ?s0))"
    "distinct (map fst (m_keysForWrite ?s0))"
    "\<forall>k\<in>dom (map_of (m_keysForWrite ?s0)). 0 < k \<and> BareDcId E k \<noteq> 0"
    "placedBy (destroyKeyNextDcId E) (m_keysForWrite ?s0)"
    using c by (simp_all add: constructed_def isKeysDestroyer_def placedBy_def)
  from placeKeys_destroyer [OF inc i(1,2) keys i(3,4,5)]
  obtain s2 where p: "placeKeys E (cfgKeys config) ?s0 = Inr s2"
       "dom (map_of (m_dcenters s2)) = dom (map_of (m_keysForWrite s2))"
       "distinct (map fst (m_keysForWrite s2))"
       "\<forall>k\<in>dom (map_of (m_keysForWrite s2)). 0 < k \<and> BareDcId E k \<noteq> 0"
       "placedBy (destroyKeyNextDcId E) (m_keysForWrite s2)"
       "mset (map snd (m_keysForWrite s2))
           = mset (map snd (m_keysForWrite ?s0)) + mset (map Some (cfgKeys config))"
       "m_mode s2 = m_mode ?s0" "m_mainSession s2 = m_mainSession ?s0"
       "m_sessions s2 = m_sessions ?s0" "events s2 = events ?s0"
       "m_mainDcId s2 = m_mainDcId ?s0" "m_configLoader s2 = m_configLoader ?s0"
    by blast
  let ?s3 = "s2\<lparr>m_mainDcId := kNoneMainDc E, m_mainDcIdForced := True\<rparr>"
  have "\<forall>k\<in>dom (map_of (m_dcenters s2)).
      k \<noteq> 0 \<and> BareDcId E k \<noteq> 0 \<and> map_of (m_dcenters s2) k \<noteq> None"
    using p(2,4) by fastforce
  moreover have "set (map fst (m_dcenters ?s3)) = dom (map_of (m_dcenters s2))"
    by (simp add: dom_map_of_conv_image_fst)
  ultimately have "\<forall>k\<in>set (map fst (m_dcenters ?s3)).
      k \<noteq> 0 \<and> BareDcId E k \<noteq> 0 \<and> map_of (m_dcenters ?s3) k \<noteq> None"
    by simp
  from startSessions_destroyer [OF this]
  obtain s5 where q: "startSessions E (map fst (m_dcenters ?s3)) ?s3 = Inr s5"
    "sendFrame ?s3 s5" "m_dcenters s5 = m_dcenters ?s3"
    "signalCount (events s5) = signalCount (events ?s3)"
    "dom (map_of (m_sessions s5))
       = set (map fst (m_dcenters ?s3)) \<union> dom (map_of (m_sessions ?s3))"
    by blast
  have f: "m_mode s5 = KeysDestroyer" "m_mainDcId s5 = kNoneMainDc E" "m_mainSession s5 = None"
    "m_keysForWrite s5 = m_keysForWrite s2"
    using q(2) p(7,8) c by (simp_all add: sendFrame_def constructed_def)
  have st: "start E s config = Inr (fire TimerSetCallback s5)"
    using p(1) q(1) m f p(7) c
    by (simp add: start_def Let_def isKeysDestroyer_def requestConfig_def fire_def
        constructed_def)
  have se: "dom (map_of (m_sessions s5)) = dom (map_of (m_keysForWrite s2))"
    using q(5) p(2,9) c by (simp add: dom_map_of_conv_image_fst constructed_def)
  have va: "mset (map snd (m_keysForWrite s2)) = mset (map Some (cfgKeys config))"
    using p(6) c by (simp add: constructed_def)
  show ?thesis
    apply (rule exI [of _ "fire TimerSetCallback s5"])
    using st f se va p(2,3,5,10) q(3,4)
    apply (simp add: fire_def isKeysDestroyer_def signalCount_def)
    done
qed


text \<open>
  C9. Let the instance be newly constructed in key-destroyer mode and started with a
  config whose main DC id is \<^verbatim>\<open>Config::kNoneMainDc\<close> and whose keys (at least one) are
  for positive DC ids with a bare DC; let \<^verbatim>\<open>destroyKeyNextDcId\<close> move a positive id
  to a greater one of the same bare DC. Then \<^verbatim>\<open>start\<close> returns, and afterwards: the
  key registry holds exactly the input keys, each under an id of its own (no key is
  lost, no id is used twice), the id of a key being its DC id moved by
  \<^verbatim>\<open>destroyKeyNextDcId\<close> once or more; the DC registry and the session registry have
  exactly these ids; there is no main session. Running \<^verbatim>\<open>completedKeyDestroy\<close> once
  for each of these ids, in any order \<open>ks\<close>, returns with the three registries empty,
  with exactly one \<^verbatim>\<open>_allKeysDestroyed.fire\<close> more than before \<^verbatim>\<open>start\<close>, and that one
  is the last call made. And in any key-destroyer state \<open>t\<close> without main session,
  \<^verbatim>\<open>completedKeyDestroy(k)\<close> returns, erases \<open>k\<close> from the DC registry, the key
  registry and the session registry, kills the session that was stored under \<open>k\<close>,
  and fires the signal exactly when the DC registry is empty afterwards.
\<close>

theorem C9_key_destroyer:
  assumes "constructed E KeysDestroyer s"
    and "cfgMainDcId config = kNoneMainDc E" and "kNoneMainDc E \<noteq> kNotSetMainDc E"
    and "\<forall>x. 0 < x \<longrightarrow> x < destroyKeyNextDcId E x
                  \<and> BareDcId E (destroyKeyNextDcId E x) = BareDcId E x"
    and "\<forall>k\<in>set (cfgKeys config). 0 < key_dcId k \<and> BareDcId E (key_dcId k) \<noteq> 0"
    and "cfgKeys config \<noteq> []"
  shows "(\<exists>s1. start E s config = Inr s1
       \<and> isKeysDestroyer s1 \<and> m_mainSession s1 = None
       \<and> distinct (map fst (m_keysForWrite s1))
       \<and> mset (map snd (m_keysForWrite s1)) = mset (map Some (cfgKeys config))
       \<and> placedBy (destroyKeyNextDcId E) (m_keysForWrite s1)
       \<and> dom (map_of (m_dcenters s1)) = dom (map_of (m_keysForWrite s1))
       \<and> dom (map_of (m_sessions s1)) = dom (map_of (m_keysForWrite s1))
       \<and> (distinct ks \<and> set ks = dom (map_of (m_keysForWrite s1)) \<longrightarrow>
           (\<exists>s2. completeKeys E ks s1 = Inr s2
              \<and> m_dcenters s2 = [] \<and> m_keysForWrite s2 = [] \<and> m_sessions s2 = []
              \<and> signalCount (events s2) = Suc (signalCount (events s))
              \<and> last (events s2) = AllKeysDestroyedFired)))
    \<and> (isKeysDestroyer t \<and> m_mainSession t = None \<longrightarrow>
         (\<exists>t'. completedKeyDestroy E t k = Inr t'
            \<and> m_dcenters t' = fm_erase k (m_dcenters t)
            \<and> m_keysForWrite t' = fm_erase k (m_keysForWrite t)
            \<and> m_sessions t' = fm_erase k (m_sessions t)
            \<and> events t' = events t
                 @ (case map_of (m_sessions t) k of
                      Some x \<Rightarrow> [SessionKill (sessionRef x)] | None \<Rightarrow> [])
                 @ [InvokeQueuedClearSessionsToDestroy]
                 @ (if m_dcenters t' = [] then [AllKeysDestroyedFired] else [])))"
proof (intro conjI impI)
  from start_destroyer [OF assms(1-5)]
  obtain s1 where a: "start E s config = Inr s1"
     "isKeysDestroyer s1" "m_mainSession s1 = None"
     "distinct (map fst (m_keysForWrite s1))"
     "mset (map snd (m_keysForWrite s1)) = mset (map Some (cfgKeys config))"
     "placedBy (destroyKeyNextDcId E) (m_keysForWrite s1)"
     "dom (map_of (m_dcenters s1)) = dom (map_of (m_keysForWrite s1))"
     "dom (map_of (m_sessions s1)) = dom (map_of (m_keysForWrite s1))"
     "signalCount (events s1) = signalCount (events s)"
    by blast
  have ne: "m_keysForWrite s1 \<noteq> []" using a(5) assms(6) by auto
  have run: "\<exists>s2. completeKeys E ks s1 = Inr s2
              \<and> m_dcenters s2 = [] \<and> m_keysForWrite s2 = [] \<and> m_sessions s2 = []
              \<and> signalCount (events s2) = Suc (signalCount (events s))
              \<and> last (events s2) = AllKeysDestroyedFired"
    if ks: "distinct ks \<and> set ks = dom (map_of (m_keysForWrite s1))"
  proof -
    have d: "fst ` set (m_dcenters s1) = set ks" "fst ` set (m_keysForWrite s1) = set ks"
      "fst ` set (m_sessions s1) = set ks"
      using ks a(7,8) by (simp_all add: dom_map_of_conv_image_fst)
    have n: "ks \<noteq> []" using d(2) ne by auto
    from completeKeys_run [OF a(2,3) _ d(1), of E] ks n
    obtain s2 where r: "completeKeys E ks s1 = Inr s2" "m_dcenters s2 = []"
       "m_keysForWrite s2 = filter (\<lambda>e. fst e \<notin> set ks) (m_keysForWrite s1)"
       "m_sessions s2 = filter (\<lambda>e. fst e \<notin> set ks) (m_sessions s1)"
       "signalCount (events s2) = Suc (signalCount (events s1))"
       "last (events s2) = AllKeysDestroyedFired"
      by blast
    have "m_keysForWrite s2 = []" "m_sessions s2 = []"
      unfolding r(3,4) using d(2,3) by (auto simp: filter_empty_conv)
    with r a(9) show ?thesis by simp
  qed
  show "\<exists>s1. start E s config = Inr s1
       \<and> isKeysDestroyer s1 \<and> m_mainSession s1 = None
       \<and> distinct (map fst (m_keysForWrite s1))
       \<and> mset (map snd (m_keysForWrite s1)) = mset (map Some (cfgKeys config))
       \<and> placedBy (destroyKeyNextDcId E) (m_keysForWrite s1)
       \<and> dom (map_of (m_dcenters s1)) = dom (map_of (m_keysForWrite s1))
       \<and> dom (map_of (m_sessions s1)) = dom (map_of (m_keysForWrite s1))
       \<and> (distinct ks \<and> set ks = dom (map_of (m_keysForWrite s1)) \<longrightarrow>
           (\<exists>s2. completeKeys E ks s1 = Inr s2
              \<and> m_dcenters s2 = [] \<and> m_keysForWrite s2 = [] \<and> m_sessions s2 = []
              \<and> signalCount (events s2) = Suc (signalCount (events s))
              \<and> last (events s2) = AllKeysDestroyedFired))"
    apply (rule exI [of _ s1])
    using a(1-8) run apply blast
    done
next
  assume "isKeysDestroyer t \<and> m_mainSession t = None"
  then have t: "isKeysDestroyer t" "m_mainSession t = None" by simp_all
  from completedKeyDestroy_step [OF t, of E k]
  show "\<exists>t'. completedKeyDestroy E t k = Inr t'
            \<and> m_dcenters t' = fm_erase k (m_dcenters t)
            \<and> m_keysForWrite t' = fm_erase k (m_keysForWrite t)
            \<and> m_sessions t' = fm_erase k (m_sessions t)
            \<and> events t' = events t
                 @ (case map_of (m_sessions t) k of
                      Some x \<Rightarrow> [SessionKill (sessionRef x)] | None \<Rightarrow> [])
                 @ [InvokeQueuedClearSessionsToDestroy]
                 @ (if m_dcenters t' = [] then [AllKeysDestroyedFired] else [])"
    by fastforce
qed


lemma sampleEnv_next:
  "\<forall>x. 0 < x \<longrightarrow> x < destroyKeyNextDcId sampleEnv x
     \<and> BareDcId sampleEnv (destroyKeyNextDcId sampleEnv x) = BareDcId sampleEnv x"
proof (intro allI impI)
  fix x :: int assume x: "0 < x"
  have d: "x = x mod 10000 + 10000 * (x div 10000)" by simp
  have r: "0 \<le> x mod 10000" "x mod 10000 < 10000" "0 \<le> x div 10000" using x by simp_all
  let ?c = "if x div 10000 \<noteq> 0 then x div 10000 + 1 else 256"
  have n: "destroyKeyNextDcId sampleEnv x = x mod 10000 + 10000 * ?c"
    using x by (simp add: sampleEnv_def)
  have c: "x div 10000 < ?c" "0 < ?c" using r(3) by auto
  have gt: "x < x mod 10000 + 10000 * ?c" using d c(1) by linarith
  have pos: "0 < x mod 10000 + 10000 * ?c" using r(1) c(2) by linarith
  have "(x mod 10000 + 10000 * ?c) mod 10000 = x mod 10000" by simp
  then have "BareDcId sampleEnv (x mod 10000 + 10000 * ?c) = BareDcId sampleEnv x"
    using pos x by (simp add: sampleEnv_def del: mod_mult_self2 mod_mult_self1)
  with gt show "x < destroyKeyNextDcId sampleEnv x
     \<and> BareDcId sampleEnv (destroyKeyNextDcId sampleEnv x) = BareDcId sampleEnv x"
    unfolding n by simp
qed

lemma sampleStart:
  "map_sum id (\<lambda>s1. map fst (m_keysForWrite s1)) (start sampleEnv sampleDestroyer sampleKeys)
     = Inr [2560002, 2560003, 2570003]"
  by (simp add: start_def freeDestroyDcId.simps fm_assign_def fm_erase_def fm_emplace_def
      addDc_def startSession_def getDcById_def findDc_def findSession_def
      scheduleKeyDestroy_def sendFromStartSession_def sendRequestTo_def storeRequest_def
      registerRequest_def crl_now_def fire_def GetNextRequestId_def wrapInt32_def
      kIntMax_def emplaceMap_def newRequest_def requestConfig_def isKeysDestroyer_def
      Let_def sampleDestroyer_def sampleState_def sampleKeys_def sampleEnv_def)


theorem C9_key_destroyer_witness:
  "constructed sampleEnv KeysDestroyer sampleDestroyer
   \<and> (\<exists>s1 s2. start sampleEnv sampleDestroyer sampleKeys = Inr s1
        \<and> map fst (m_keysForWrite s1) = [2560002, 2560003, 2570003]
        \<and> mset (map snd (m_keysForWrite s1))
            = {#Some (AuthKey 0 2), Some (AuthKey 1 3), Some (AuthKey 2 3)#}
        \<and> m_mainSession s1 = None
        \<and> completeKeys sampleEnv [2570003, 2560002, 2560003] s1 = Inr s2
        \<and> m_dcenters s2 = [] \<and> m_keysForWrite s2 = [] \<and> m_sessions s2 = []
        \<and> signalCount (events s2) = 1 \<and> last (events s2) = AllKeysDestroyedFired)"
proof -
  have c: "constructed sampleEnv KeysDestroyer sampleDestroyer"
    by (simp add: constructed_def sampleDestroyer_def sampleState_def sampleEnv_def)
  have h: "cfgMainDcId sampleKeys = kNoneMainDc sampleEnv"
    "kNoneMainDc sampleEnv \<noteq> kNotSetMainDc sampleEnv"
    "\<forall>k\<in>set (cfgKeys sampleKeys). 0 < key_dcId k \<and> BareDcId sampleEnv (key_dcId k) \<noteq> 0"
    "cfgKeys sampleKeys \<noteq> []"
    by (simp_all add: sampleKeys_def sampleEnv_def)
  note inst = C9_key_destroyer [OF c h(1,2) sampleEnv_next h(3,4),
      of "[2570003, 2560002, 2560003]" sampleDestroyer 0, THEN conjunct1]
  then obtain s1 where s1: "start sampleEnv sampleDestroyer sampleKeys = Inr s1"
    "m_mainSession s1 = None"
    "mset (map snd (m_keysForWrite s1)) = mset (map Some (cfgKeys sampleKeys))"
    "distinct [2570003, 2560002, 2560003 :: int]
       \<and> set [2570003, 2560002, 2560003] = dom (map_of (m_keysForWrite s1)) \<longrightarrow>
       (\<exists>s2. completeKeys sampleEnv [2570003, 2560002, 2560003] s1 = Inr s2
          \<and> m_dcenters s2 = [] \<and> m_keysForWrite s2 = [] \<and> m_sessions s2 = []
          \<and> signalCount (events s2) = Suc (signalCount (events sampleDestroyer))
          \<and> last (events s2) = AllKeysDestroyedFired)"
    by blast
  have k: "map fst (m_keysForWrite s1) = [2560002, 2560003, 2570003]"
    using sampleStart s1(1) by simp
  have "dom (map_of (m_keysForWrite s1)) = set (map fst (m_keysForWrite s1))"
    by (simp add: dom_map_of_conv_image_fst)
  then have "set [2570003, 2560002, 2560003] = dom (map_of (m_keysForWrite s1))"
    unfolding k by auto
  with s1(4) obtain s2 where s2: "completeKeys sampleEnv [2570003, 2560002, 2560003] s1 = Inr s2"
    "m_dcenters s2 = []" "m_keysForWrite s2 = []" "m_sessions s2 = []"
    "signalCount (events s2) = Suc (signalCount (events sampleDestroyer))"
    "last (events s2) = AllKeysDestroyedFired"
    by auto
  have "signalCount (events s2) = 1"
    unfolding s2(5) by (simp add: signalCount_def sampleDestroyer_def sampleState_def)
  with c s1(1,2) k s2 s1(3) show ?thesis
    by (simp add: sampleKeys_def)
qed

end
